theory Spec2Isabelle
  imports Complex_Main "HOL-Library.Sublist" "HOL-Library.AList"
begin

section \<open>Agent collaboration layer: presence, mailbox, channel inbox, bridge, replication\<close>

text \<open>
  A shallow embedding of \<^verbatim>\<open>scripts/agent_comms.py\<close>, \<^verbatim>\<open>scripts/telegram_bridge.py\<close> and
  \<^verbatim>\<open>NSyncHandler.sync\<close> of \<^verbatim>\<open>scripts/nsync.py\<close>.

  Conventions of the model:
  \<^item> time is a real number of seconds (\<^verbatim>\<open>time.time()\<close>); one operation reads one clock value;
  \<^item> a directory is an association list from file name to file, in enumeration order;
    names are compared byte for byte, as on the POSIX hosts;
  \<^item> a JSON file holds \<open>Some j\<close> when \<^verbatim>\<open>json.load\<close> accepts it and \<open>None\<close> when it raises;
    \<^verbatim>\<open>json.dump\<close> followed by \<^verbatim>\<open>json.load\<close> gives the value back;
  \<^item> opening, writing and unlinking an existing file do not fail; creating a file fails
    where the file system refuses its name;
  \<^item> a character is a code point below 256, and a file name is its UTF-8 encoding.
\<close>

subsection \<open>Python string operations\<close>

text \<open>\<^verbatim>\<open>str.lower\<close>: the letters \<^verbatim>\<open>A\<close> to \<^verbatim>\<open>Z\<close> and the capital letters U+00C0 to U+00DE
  (U+00D7 is the multiplication sign) have a lower-case form; every other character below
  256 stays.\<close>

definition lower_char :: "char \<Rightarrow> char" where
  "lower_char c =
     (case map_of (zip (''ABCDEFGHIJKLMNOPQRSTUVWXYZ'' @
                        [CHR 0xC0, CHR 0xC1, CHR 0xC2, CHR 0xC3, CHR 0xC4, CHR 0xC5, CHR 0xC6, CHR 0xC7,
                         CHR 0xC8, CHR 0xC9, CHR 0xCA, CHR 0xCB, CHR 0xCC, CHR 0xCD, CHR 0xCE, CHR 0xCF,
                         CHR 0xD0, CHR 0xD1, CHR 0xD2, CHR 0xD3, CHR 0xD4, CHR 0xD5, CHR 0xD6,
                         CHR 0xD8, CHR 0xD9, CHR 0xDA, CHR 0xDB, CHR 0xDC, CHR 0xDD, CHR 0xDE])
                       (''abcdefghijklmnopqrstuvwxyz'' @
                        [CHR 0xE0, CHR 0xE1, CHR 0xE2, CHR 0xE3, CHR 0xE4, CHR 0xE5, CHR 0xE6, CHR 0xE7,
                         CHR 0xE8, CHR 0xE9, CHR 0xEA, CHR 0xEB, CHR 0xEC, CHR 0xED, CHR 0xEE, CHR 0xEF,
                         CHR 0xF0, CHR 0xF1, CHR 0xF2, CHR 0xF3, CHR 0xF4, CHR 0xF5, CHR 0xF6,
                         CHR 0xF8, CHR 0xF9, CHR 0xFA, CHR 0xFB, CHR 0xFC, CHR 0xFD, CHR 0xFE])) c of
        Some d \<Rightarrow> d
      | None \<Rightarrow> c)"

definition lower :: "string \<Rightarrow> string" where
  "lower s = map lower_char s"

definition startswith :: "string \<Rightarrow> string \<Rightarrow> bool" where
  "startswith s p = prefix p s"

definition endswith :: "string \<Rightarrow> string \<Rightarrow> bool" where
  "endswith s p = prefix (rev p) (rev s)"

text \<open>\<^verbatim>\<open>str.isspace\<close> below 256: tab, LF, VT, FF, CR, FS, GS, RS, US, space, NEL (U+0085)
  and the no-break space (U+00A0). It is what \<^verbatim>\<open>strip\<close> removes and \<^verbatim>\<open>split()\<close> splits at.\<close>

definition is_space :: "char \<Rightarrow> bool" where
  "is_space c = ((of_char c :: nat) \<in> {9, 10, 11, 12, 13, 28, 29, 30, 31, 32, 133, 160})"

definition lstrip :: "string \<Rightarrow> string" where
  "lstrip s = dropWhile is_space s"

definition rstrip :: "string \<Rightarrow> string" where
  "rstrip s = rev (dropWhile is_space (rev s))"

definition strip :: "string \<Rightarrow> string" where
  "strip s = rstrip (lstrip s)"

text \<open>\<^verbatim>\<open>s.split(":", 1)\<close>: one part when there is no colon, else the text before the first
  colon and the text after it.\<close>

definition split_colon :: "string \<Rightarrow> string list" where
  "split_colon s =
     (if CHR '':'' \<in> set s
      then [takeWhile (\<lambda>c. c \<noteq> CHR '':'') s, tl (dropWhile (\<lambda>c. c \<noteq> CHR '':'') s)]
      else [s])"

text \<open>\<^verbatim>\<open>s.replace(p, "")\<close> for a non-empty \<open>p\<close>: every occurrence, scanning from the left.\<close>

function replace_del :: "string \<Rightarrow> string \<Rightarrow> string" where
  "replace_del p [] = []"
| "replace_del p (c # cs) =
     (if p \<noteq> [] \<and> prefix p (c # cs) then replace_del p (drop (length p) (c # cs))
      else c # replace_del p cs)"
  by pat_completeness auto
termination
  by (relation "measure (\<lambda>(p, s). length s)") (auto simp: neq_Nil_conv)

declare replace_del.simps(2) [simp del]

text \<open>\<^verbatim>\<open>str(i)\<close> of an integer, and \<^verbatim>\<open>int(x)\<close> of a float (truncation towards zero).\<close>

definition digit :: "nat \<Rightarrow> char" where
  "digit d = ''0123456789'' ! d"

fun dec_nat :: "nat \<Rightarrow> string" where
  "dec_nat n = (if n < 10 then [digit n] else dec_nat (n div 10) @ [digit (n mod 10)])"

declare dec_nat.simps [simp del]

definition py_str_int :: "int \<Rightarrow> string" where
  "py_str_int i = (if i < 0 then CHR ''-'' # dec_nat (nat (- i)) else dec_nat (nat i))"

definition py_int :: "real \<Rightarrow> int" where
  "py_int r = (if 0 \<le> r then \<lfloor>r\<rfloor> else \<lceil>r\<rceil>)"

subsection \<open>JSON values and exceptions\<close>

datatype json =
    JNull
  | JBool bool
  | JInt int
  | JNum real
  | JStr string
  | JArr "json list"
  | JObj "(string \<times> json) list"

datatype exn =
    KeyError | TypeError | AttributeError | ValueError | OverflowError | JSONDecodeError | OSError
  | KeyboardInterrupt

text \<open>\<^verbatim>\<open>except Exception\<close> does not catch \<^verbatim>\<open>KeyboardInterrupt\<close>.\<close>

definition is_Exception :: "exn \<Rightarrow> bool" where
  "is_Exception e = (e \<noteq> KeyboardInterrupt)"

text \<open>\<^verbatim>\<open>m[k]\<close> with a string key.\<close>

fun subscript :: "json \<Rightarrow> string \<Rightarrow> exn + json" where
  "subscript (JObj kvs) k = (case map_of kvs k of Some v \<Rightarrow> Inr v | None \<Rightarrow> Inl KeyError)"
| "subscript _ k = Inl TypeError"

text \<open>\<^verbatim>\<open>m.get(k, default)\<close>: only a dict has the method.\<close>

fun dict_get :: "json \<Rightarrow> string \<Rightarrow> json \<Rightarrow> exn + json" where
  "dict_get (JObj kvs) k dflt = (case map_of kvs k of Some v \<Rightarrow> Inr v | None \<Rightarrow> Inr dflt)"
| "dict_get _ k dflt = Inl AttributeError"

text \<open>The operand of \<^verbatim>\<open>time.time() - x\<close>: a float, a boolean (an int in Python), or an int
  that converts to a float. The conversion rounds to the nearest double and raises
  \<^verbatim>\<open>OverflowError\<close> from \<^verbatim>\<open>2**1024 - 2**970\<close> on, half a unit above the largest double; anything
  else raises \<^verbatim>\<open>TypeError\<close>. \<open>None\<close> stands for either exception, \<open>number_error\<close> tells
  which.\<close>

definition in_float_range :: "int \<Rightarrow> bool" where
  "in_float_range i = (\<bar>i\<bar> < 2 ^ 1024 - 2 ^ 970)"

fun as_number :: "json \<Rightarrow> real option" where
  "as_number (JNum r) = Some r"
| "as_number (JInt i) = (if in_float_range i then Some (of_int i) else None)"
| "as_number (JBool b) = Some (if b then 1 else 0)"
| "as_number _ = None"

definition number_error :: "json \<Rightarrow> exn" where
  "number_error j = (case j of JInt _ \<Rightarrow> OverflowError | _ \<Rightarrow> TypeError)"

text \<open>The operand of \<^verbatim>\<open>x + 1\<close>: a float, an int of any size, or a boolean.\<close>

definition is_number :: "json \<Rightarrow> bool" where
  "is_number j = (case j of JNum _ \<Rightarrow> True | JInt _ \<Rightarrow> True | JBool _ \<Rightarrow> True | _ \<Rightarrow> False)"

subsection \<open>Directories\<close>

type_synonym 'a dir = "(string \<times> 'a) list"

definition names :: "'a dir \<Rightarrow> string list" where
  "names d = map fst d"

definition write_file :: "string \<Rightarrow> 'a \<Rightarrow> 'a dir \<Rightarrow> 'a dir" where
  "write_file n v d = AList.update n v d"

definition unlink :: "string \<Rightarrow> 'a dir \<Rightarrow> 'a dir" where
  "unlink n d = AList.delete n d"

text \<open>\<^verbatim>\<open>Path.glob\<close> matches the names of a directory against a pattern as \<^verbatim>\<open>fnmatch\<close> does,
  case by case and dot files included: \<^verbatim>\<open>*\<close> stands for any text, \<^verbatim>\<open>?\<close> for one character,
  \<^verbatim>\<open>[seq]\<close> for one character of \<open>seq\<close> and \<^verbatim>\<open>[!seq]\<close> for one character not in it. In
  \<open>seq\<close>, \<^verbatim>\<open>a-b\<close> is the range from \<open>a\<close> to \<open>b\<close> (empty when \<open>b\<close> comes before \<open>a\<close>), and a
  \<^verbatim>\<open>]\<close> that comes first is a member; a \<^verbatim>\<open>[\<close> that no \<^verbatim>\<open>]\<close> closes stands for itself.\<close>

datatype glob_token = Lit char | Any_char | Star | Class bool string

text \<open>The scan of \<^verbatim>\<open>fnmatch.translate\<close> after a \<^verbatim>\<open>[\<close>: past a \<^verbatim>\<open>!\<close>, past a \<^verbatim>\<open>]\<close>, then on to
  the next \<^verbatim>\<open>]\<close>.\<close>

definition class_closes :: "string \<Rightarrow> bool" where
  "class_closes p =
     (let q = (case p of c # r \<Rightarrow> if c = CHR ''!'' then r else p | [] \<Rightarrow> p);
          r = (case q of c # r \<Rightarrow> if c = CHR '']'' then r else q | [] \<Rightarrow> q)
      in CHR '']'' \<in> set r)"

definition mk_class :: "string \<Rightarrow> glob_token" where
  "mk_class s = (case s of c # r \<Rightarrow> if c = CHR ''!'' then Class True r else Class False s
                 | [] \<Rightarrow> Class False s)"

fun tokens :: "string \<Rightarrow> glob_token list"
  and class_body :: "string \<Rightarrow> string \<Rightarrow> glob_token list" where
  "tokens [] = []"
| "tokens (c # p) =
     (if c = CHR ''*'' then Star # tokens p
      else if c = CHR ''?'' then Any_char # tokens p
      else if c = CHR ''['' \<and> class_closes p then class_body [] p
      else Lit c # tokens p)"
| "class_body acc [] = []"
| "class_body acc (c # p) =
     (if c = CHR '']'' \<and> acc \<noteq> [] \<and> acc \<noteq> ''!'' then mk_class (rev acc) # tokens p
      else class_body (c # acc) p)"

fun in_class :: "string \<Rightarrow> char \<Rightarrow> bool" where
  "in_class (a # b # c # r) x =
     (if b = CHR ''-''
      then ((of_char a :: nat) \<le> of_char x \<and> (of_char x :: nat) \<le> of_char c) \<or> in_class r x
      else a = x \<or> in_class (b # c # r) x)"
| "in_class (a # r) x = (a = x \<or> in_class r x)"
| "in_class [] x = False"

fun matches :: "glob_token list \<Rightarrow> string \<Rightarrow> bool" where
  "matches [] n = (n = [])"
| "matches (Star # ts) [] = matches ts []"
| "matches (Star # ts) (c # cs) = (matches ts (c # cs) \<or> matches (Star # ts) cs)"
| "matches (Lit a # ts) [] = False"
| "matches (Lit a # ts) (c # cs) = (a = c \<and> matches ts cs)"
| "matches (Any_char # ts) [] = False"
| "matches (Any_char # ts) (c # cs) = matches ts cs"
| "matches (Class neg s # ts) [] = False"
| "matches (Class neg s # ts) (c # cs) = (in_class s c \<noteq> neg \<and> matches ts cs)"

definition fnmatch :: "string \<Rightarrow> string \<Rightarrow> bool" where
  "fnmatch pat n = matches (tokens pat) n"

text \<open>\<^verbatim>\<open>dir.glob(f"{pre}*.json")\<close> on a directory of files, for a \<open>pre\<close> without \<^verbatim>\<open>/\<close> (at
  which \<^verbatim>\<open>glob\<close> descends into a subdirectory) and without \<^verbatim>\<open>**\<close>. A host id is literal
  when it has none of the characters that \<^verbatim>\<open>glob\<close> interprets; the pattern of a literal id
  matches the names that start with it and, after it, end with \<^verbatim>\<open>.json\<close>.\<close>

definition literal_id :: "string \<Rightarrow> bool" where
  "literal_id h = list_all (\<lambda>c. c \<notin> set ''*?[/'') h"

definition glob_match :: "string \<Rightarrow> string \<Rightarrow> bool" where
  "glob_match pre n = fnmatch (pre @ ''*.json'') n"

definition glob :: "string \<Rightarrow> 'a dir \<Rightarrow> string list" where
  "glob pre d = filter (glob_match pre) (names d)"

subsection \<open>The process and the shared state\<close>

record tfile =
  mtime :: real
  body :: "json option"

datatype event =
    Sync_attempt
  | Warn_read string
  | Fallback_handled string
  | Api_error int

text \<open>The comms directory \<^verbatim>\<open>.nsync_agents\<close>: the presence files (by stem), the mailbox
  \<^verbatim>\<open>messages\<close>, \<^verbatim>\<open>telegram_inbox\<close> and \<^verbatim>\<open>telegram_outbox\<close>, whether each directory
  exists, and what the process has launched and printed.\<close>

record world =
  comms_dir :: bool
  presence :: "json option dir"
  mailbox_dir :: bool
  mailbox :: "json option dir"
  inbox_dir :: bool
  inbox :: "tfile dir"
  outbox_dir :: bool
  outbox :: "json option dir"
  events :: "event list"

text \<open>What a process reads from its environment: \<^verbatim>\<open>AGENT_IDENTITY\<close>, the socket host name,
  \<^verbatim>\<open>os.name == 'nt'\<close>, two renderings of the standard library that are not modelled
  (\<^verbatim>\<open>time.ctime\<close>, and \<^verbatim>\<open>str\<close> of a float, a list or a dict), and what the file system does
  when a file is written through a path that leaves the channel inbox.\<close>

record proc =
  identity_env :: "string option"
  socket_hostname :: string
  os_nt :: bool
  ctime :: "real \<Rightarrow> string"
  str_of :: "json \<Rightarrow> string"
  open_outside :: "string \<Rightarrow> tfile \<Rightarrow> world \<Rightarrow> exn \<times> world + world"

definition get_hostname :: "proc \<Rightarrow> string" where
  "get_hostname p =
     (case identity_env p of
        Some i \<Rightarrow> if i \<noteq> [] then i else socket_hostname p
      | None \<Rightarrow> socket_hostname p)"

text \<open>\<^verbatim>\<open>os.getenv("AGENT_IDENTITY", hostname)\<close>.\<close>

definition agent_identity :: "proc \<Rightarrow> string" where
  "agent_identity p = (case identity_env p of Some i \<Rightarrow> i | None \<Rightarrow> get_hostname p)"

text \<open>\<^verbatim>\<open>str(x)\<close>, also of an f-string field.\<close>

definition fmt :: "proc \<Rightarrow> json \<Rightarrow> string" where
  "fmt p j =
     (case j of
        JStr s \<Rightarrow> s
      | JInt i \<Rightarrow> py_str_int i
      | JNull \<Rightarrow> ''None''
      | JBool b \<Rightarrow> (if b then ''True'' else ''False'')
      | _ \<Rightarrow> str_of p j)"

definition get_comms_dir :: "world \<Rightarrow> world" where
  "get_comms_dir w = w\<lparr>comms_dir := True\<rparr>"

definition get_mailbox_dir :: "world \<Rightarrow> world" where
  "get_mailbox_dir w = (get_comms_dir w)\<lparr>mailbox_dir := True\<rparr>"

definition get_telegram_inbox_dir :: "world \<Rightarrow> world" where
  "get_telegram_inbox_dir w = (get_comms_dir w)\<lparr>inbox_dir := True\<rparr>"

text \<open>\<^verbatim>\<open>subprocess.run([..., "nsync", "sync"])\<close> inside \<^verbatim>\<open>try/except: pass\<close>: the attempt is
  made, whatever comes of it.\<close>

definition trigger_nsync :: "world \<Rightarrow> world" where
  "trigger_nsync w = w\<lparr>events := events w @ [Sync_attempt]\<rparr>"

subsection \<open>Presence store\<close>

definition presence_data :: "proc \<Rightarrow> real \<Rightarrow> string \<Rightarrow> string \<Rightarrow> json" where
  "presence_data p now status task =
     JObj [(''hostname'', JStr (get_hostname p)),
           (''timestamp'', JNum now),
           (''status'', JStr status),
           (''current_task'', JStr task),
           (''last_seen'', JStr (ctime p now))]"

definition update :: "proc \<Rightarrow> real \<Rightarrow> string \<Rightarrow> string \<Rightarrow> world \<Rightarrow> json \<times> world" where
  "update p now status task w =
     (let w1 = get_comms_dir w;
          data = presence_data p now status task;
          w2 = w1\<lparr>presence := write_file (get_hostname p) (Some data) (presence w1)\<rparr>
      in (data, trigger_nsync w2))"

definition get_remote_status :: "proc \<Rightarrow> world \<Rightarrow> (string \<times> json) list \<times> world" where
  "get_remote_status p w =
     (concat (map (\<lambda>(stem, c). case c of Some j \<Rightarrow> if stem \<noteq> get_hostname p then [(stem, j)] else []
                                  | None \<Rightarrow> [])
                  (presence w)),
      get_comms_dir w)"

subsection \<open>Mailbox\<close>

definition msg_id :: "real \<Rightarrow> int" where
  "msg_id now = py_int (now * 1000)"

definition msg_file :: "string \<Rightarrow> string \<Rightarrow> int \<Rightarrow> string" where
  "msg_file recipient sender i = recipient @ ''_'' @ sender @ ''_'' @ py_str_int i @ ''.json''"

definition payload :: "proc \<Rightarrow> real \<Rightarrow> json \<Rightarrow> string \<Rightarrow> json \<Rightarrow> json" where
  "payload p now recipient msg_type content =
     JObj [(''id'', JInt (msg_id now)),
           (''from'', JStr (get_hostname p)),
           (''to'', recipient),
           (''type'', JStr msg_type),
           (''content'', content),
           (''timestamp'', JNum now)]"

definition send_message :: "proc \<Rightarrow> real \<Rightarrow> json \<Rightarrow> string \<Rightarrow> json \<Rightarrow> world \<Rightarrow> string \<times> world" where
  "send_message p now recipient msg_type content w =
     (let w1 = get_mailbox_dir w;
          f = msg_file (fmt p recipient) (get_hostname p) (msg_id now);
          w2 = w1\<lparr>mailbox := write_file f (Some (payload p now recipient msg_type content)) (mailbox w1)\<rparr>
      in (f, trigger_nsync w2))"

text \<open>The body of the loop of \<^verbatim>\<open>listen_for_messages\<close> for one globbed name: a file that is
  gone or does not parse raises inside \<^verbatim>\<open>try\<close> and is reported; a parsed one is appended
  and unlinked.\<close>

definition read_message :: "string \<Rightarrow> json list \<times> world \<Rightarrow> json list \<times> world" where
  "read_message f s =
     (case s of (messages, w) \<Rightarrow>
        (case map_of (mailbox w) f of
           Some (Some msg) \<Rightarrow> (messages @ [msg], w\<lparr>mailbox := unlink f (mailbox w)\<rparr>)
         | _ \<Rightarrow> (messages, w\<lparr>events := events w @ [Warn_read f]\<rparr>)))"

definition listen_for_messages :: "proc \<Rightarrow> world \<Rightarrow> json list \<times> world" where
  "listen_for_messages p w =
     (let w1 = get_mailbox_dir w
      in fold read_message (glob (get_hostname p @ ''_'') (mailbox w1)) ([], w1))"

subsection \<open>Channel inbox and election\<close>

text \<open>The priority pass: files named for this agent's identity. A file that does not parse
  is skipped silently (\<^verbatim>\<open>except: pass\<close>) and stays.\<close>

definition read_direct :: "string \<Rightarrow> json list \<times> world \<Rightarrow> json list \<times> world" where
  "read_direct f s =
     (case s of (messages, w) \<Rightarrow>
        (case map_of (inbox w) f of
           Some tf \<Rightarrow>
             (case body tf of
                Some msg \<Rightarrow> (messages @ [msg], w\<lparr>inbox := unlink f (inbox w)\<rparr>)
              | None \<Rightarrow> (messages, w))
         | None \<Rightarrow> (messages, w)))"

definition priority_pass :: "proc \<Rightarrow> world \<Rightarrow> json list \<times> world" where
  "priority_pass p w =
     (let w1 = get_telegram_inbox_dir w
      in fold read_direct (glob (agent_identity p @ ''_'') (inbox w1)) ([], w1))"

text \<open>The loop over \<^verbatim>\<open>remotes.items()\<close> that sets \<^verbatim>\<open>quasar_active\<close>; it has no
  \<^verbatim>\<open>break\<close>, and an exception in it leaves the loop.\<close>

fun quasar_active :: "real \<Rightarrow> (string \<times> json) list \<Rightarrow> bool \<Rightarrow> exn + bool" where
  "quasar_active now [] active = Inr active"
| "quasar_active now ((h, d) # rest) active =
     (if lower h = ''quasar'' then
        (case dict_get d ''timestamp'' (JInt 0) of
           Inl e \<Rightarrow> Inl e
         | Inr ts \<Rightarrow>
             (case as_number ts of
                None \<Rightarrow> Inl (number_error ts)
              | Some t \<Rightarrow> quasar_active now rest (if now - t < 120 then True else active)))
      else quasar_active now rest active)"

definition is_primary :: "proc \<Rightarrow> real \<Rightarrow> world \<Rightarrow> (exn + bool) \<times> world" where
  "is_primary p now w =
     (if lower (get_hostname p) = ''quasar'' then (Inr True, w)
      else
        (case get_remote_status p w of (remotes, w1) \<Rightarrow>
           (case quasar_active now remotes False of
              Inl e \<Rightarrow> (Inl e, w1)
            | Inr active \<Rightarrow> (Inr (\<not> active), w1))))"

text \<open>The fallback pass for one \<^verbatim>\<open>Antigravity_*.json\<close> name; every exception in it is
  swallowed and the item is left.\<close>

definition read_fallback :: "proc \<Rightarrow> real \<Rightarrow> string \<Rightarrow> json list \<times> world \<Rightarrow> json list \<times> world" where
  "read_fallback p now f s =
     (case s of (messages, w) \<Rightarrow>
        (case map_of (inbox w) f of
           None \<Rightarrow> (messages, w)
         | Some tf \<Rightarrow>
             (if now - mtime tf > 60 then
                (case is_primary p now w of
                   (Inr True, w1) \<Rightarrow>
                     (case body tf of
                        Some msg \<Rightarrow>
                          (messages @ [msg],
                           w1\<lparr>inbox := unlink f (inbox w1),
                              events := events w1 @ [Fallback_handled f]\<rparr>)
                      | None \<Rightarrow> (messages, w1))
                 | (_, w1) \<Rightarrow> (messages, w1))
              else (messages, w))))"

definition listen_for_telegram_messages :: "proc \<Rightarrow> real \<Rightarrow> world \<Rightarrow> json list \<times> world" where
  "listen_for_telegram_messages p now w =
     (case priority_pass p w of (messages, w1) \<Rightarrow>
        if lower (agent_identity p) = ''antigravity'' then (messages, w1)
        else fold (read_fallback p now) (glob ''Antigravity_'' (inbox w1)) (messages, w1))"

definition notify_user_telegram :: "proc \<Rightarrow> real \<Rightarrow> string \<Rightarrow> world \<Rightarrow> world" where
  "notify_user_telegram p now text w =
     (let w1 = (get_comms_dir w)\<lparr>outbox_dir := True\<rparr>;
          f = ''out_'' @ py_str_int (msg_id now) @ ''.json''
      in w1\<lparr>outbox := write_file f
                 (Some (JObj [(''text'', JStr text), (''from'', JStr (get_hostname p)),
                              (''timestamp'', JNum now)]))
                 (outbox w1)\<rparr>)"

subsection \<open>Channel bridge, inbound\<close>

text \<open>\<^verbatim>\<open>open(inbox / name, "w")\<close> and the \<^verbatim>\<open>json.dump\<close> into it. A name with a NUL is refused by
  \<^verbatim>\<open>open\<close> itself. The path drops the empty and the \<^verbatim>\<open>.\<close> components of the name; a name
  that starts with \<^verbatim>\<open>/\<close> replaces the inbox path. The inbox holds files only, so a path
  through one of its entries does not resolve; a path through \<^verbatim>\<open>..\<close> or an absolute one
  leaves the inbox. A component of more than 255 bytes is refused.\<close>

definition utf8_length :: "string \<Rightarrow> nat" where
  "utf8_length s = sum_list (map (\<lambda>c. if (of_char c :: nat) < 128 then 1 else 2) s)"

fun split_slash :: "string \<Rightarrow> string list" where
  "split_slash [] = [[]]"
| "split_slash (c # cs) =
     (if c = CHR ''/'' then [] # split_slash cs
      else (case split_slash cs of x # xs \<Rightarrow> (c # x) # xs | [] \<Rightarrow> [[c]]))"

definition path_parts :: "string \<Rightarrow> string list" where
  "path_parts name = filter (\<lambda>c. c \<noteq> [] \<and> c \<noteq> ''.'') (split_slash name)"

definition create_in_inbox :: "proc \<Rightarrow> string \<Rightarrow> tfile \<Rightarrow> world \<Rightarrow> exn \<times> world + world" where
  "create_in_inbox p name item w =
     (if CHR 0x00 \<in> set name then Inl (ValueError, w)
      else if startswith name ''/'' then open_outside p name item w
      else
        (case path_parts name of
           [] \<Rightarrow> Inl (OSError, w)
         | d # rest \<Rightarrow>
             if d = ''..'' then open_outside p name item w
             else if rest = [] \<and> utf8_length d \<le> 255
             then Inr (w\<lparr>inbox := write_file d item (inbox w)\<rparr>)
             else Inl (OSError, w)))"

text \<open>\<^verbatim>\<open>handle_instruction\<close>: the state reached, or the exception of \<^verbatim>\<open>open\<close> with the state
  at which it is raised.\<close>

definition handle_instruction :: "proc \<Rightarrow> real \<Rightarrow> string \<Rightarrow> world \<Rightarrow> exn \<times> world + world" where
  "handle_instruction p now text w =
     (let routed =
            (if startswith (lower text) ''to '' then
               (case split_colon text of
                  [a, b] \<Rightarrow> (lower (strip (replace_del ''to '' a)), strip b)
                | _ \<Rightarrow> (lower (get_hostname p), text))
             else (lower (get_hostname p), text));
          w1 = get_telegram_inbox_dir w;
          i = msg_id now;
          rerouted =
            (case routed of (target_host, t) \<Rightarrow>
               if startswith (lower t) ''to antigravity'' \<or> startswith (lower t) ''to assistant''
               then (''Antigravity'',
                     (case split_colon t of [a, b] \<Rightarrow> strip b | _ \<Rightarrow> t))
               else (target_host, t))
      in (case rerouted of (target_host, t) \<Rightarrow>
            create_in_inbox p (target_host @ ''_'' @ py_str_int i @ ''.json'')
              \<lparr>mtime = now, body = Some (JObj [(''text'', JStr t), (''timestamp'', JNum now)])\<rparr>
              w1))"

text \<open>An update of the endpoint, as its API types it: \<^verbatim>\<open>update_id\<close> is always there, the
  message, its text and its sender are optional.\<close>

record tg_message =
  msg_text :: "string option"
  from_id :: "int option"

record tg_update =
  update_id :: int
  message :: "tg_message option"

record bridge_config =
  bot_token :: json
  chat_id :: json
  last_update_id :: json

text \<open>The configuration in memory and the one in \<^verbatim>\<open>telegram_config.json\<close>.\<close>

record bridge =
  config :: bridge_config
  config_file :: bridge_config

text \<open>The answer of \<^verbatim>\<open>requests.get\<close>: an exception, or a status code with the
  \<^verbatim>\<open>result\<close> list of the body, each update with the clock value at which the loop
  reaches it.\<close>

datatype reply = Net_error | Reply int "(real \<times> tg_update) list"

definition update_text :: "tg_update \<Rightarrow> string" where
  "update_text u =
     (case message u of
        None \<Rightarrow> []
      | Some m \<Rightarrow> (case msg_text m of None \<Rightarrow> [] | Some t \<Rightarrow> t))"

definition update_from :: "tg_update \<Rightarrow> json" where
  "update_from u =
     (case message u of
        None \<Rightarrow> JNull
      | Some m \<Rightarrow> (case from_id m of None \<Rightarrow> JNull | Some i \<Rightarrow> JInt i))"

definition authorized :: "proc \<Rightarrow> json \<Rightarrow> tg_update \<Rightarrow> bool" where
  "authorized p chat u = (fmt p (update_from u) = fmt p chat)"

definition contains :: "string \<Rightarrow> string \<Rightarrow> bool" where
  "contains sub s = list_ex (\<lambda>k. prefix sub (drop k s)) [0 ..< Suc (length s)]"

text \<open>The check of a non-Windows bridge: was a Windows agent seen in the last two minutes?
  It stands outside \<^verbatim>\<open>try\<close>, so its exceptions leave \<^verbatim>\<open>poll_telegram\<close>; so does the
  \<^verbatim>\<open>TypeError\<close> of \<^verbatim>\<open>last_update + 1\<close> in the URL when the saved cursor is not a number.
  Inside \<^verbatim>\<open>try\<close>, the loop over the updates ends at the first exception, which
  \<^verbatim>\<open>except Exception: pass\<close> swallows: the updates after it are not looked at and the
  cursor is not saved.\<close>

fun windows_seen :: "real \<Rightarrow> (string \<times> json) list \<Rightarrow> exn + bool" where
  "windows_seen now [] = Inr False"
| "windows_seen now ((host, d) # rest) =
     (case dict_get d ''hostname'' (JStr []) of
        Inl e \<Rightarrow> Inl e
      | Inr hn \<Rightarrow>
          (case (case hn of JStr s \<Rightarrow> Inr (lower s = ''quasar'') | _ \<Rightarrow> Inl AttributeError) of
             Inl e \<Rightarrow> Inl e
           | Inr is_quasar \<Rightarrow>
               (if is_quasar \<or> contains ''window'' (lower host) then
                  (case dict_get d ''timestamp'' (JInt 0) of
                     Inl e \<Rightarrow> Inl e
                   | Inr ts \<Rightarrow>
                       (case as_number ts of
                          None \<Rightarrow> Inl (number_error ts)
                        | Some t \<Rightarrow> if now - t < 120 then Inr True else windows_seen now rest))
                else windows_seen now rest)))"

fun route_updates ::
  "proc \<Rightarrow> json \<Rightarrow> (real \<times> tg_update) list \<Rightarrow> json \<times> world \<Rightarrow> exn option \<times> json \<times> world" where
  "route_updates p chat [] s = (None, s)"
| "route_updates p chat ((t, u) # us) (last_update, w) =
     (if authorized p chat u then
        (case handle_instruction p t (update_text u) w of
           Inl (e, w1) \<Rightarrow> (Some e, JInt (update_id u), w1)
         | Inr w1 \<Rightarrow> route_updates p chat us (JInt (update_id u), w1))
      else route_updates p chat us (JInt (update_id u), w))"

definition poll_telegram :: "proc \<Rightarrow> real \<Rightarrow> reply \<Rightarrow> bridge \<Rightarrow> world \<Rightarrow> exn option \<times> bridge \<times> world" where
  "poll_telegram p now r b w =
     (case (if os_nt p then (Inr False, w)
            else (case get_remote_status p w of (remotes, w1) \<Rightarrow> (windows_seen now remotes, w1))) of
        (Inl e, w1) \<Rightarrow> (Some e, b, w1)
      | (Inr True, w1) \<Rightarrow> (None, b, w1)
      | (Inr False, w1) \<Rightarrow>
          (if \<not> is_number (last_update_id (config b)) then (Some TypeError, b, w1)
           else
             (case r of
                Net_error \<Rightarrow> (None, b, w1)
              | Reply code updates \<Rightarrow>
                  if code = 200 then
                    (case route_updates p (chat_id (config b)) updates
                            (last_update_id (config b), w1) of
                       (None, last_update, w2) \<Rightarrow>
                         (let c = (config b)\<lparr>last_update_id := last_update\<rparr>
                          in (None, \<lparr>config = c, config_file = c\<rparr>, w2))
                     | (Some e, last_update, w2) \<Rightarrow>
                         if is_Exception e then (None, b, w2) else (Some e, b, w2))
                  else if code \<noteq> 409
                  then (None, b, w1\<lparr>events := events w1 @ [Api_error code]\<rparr>)
                  else (None, b, w1))))"

subsection \<open>The command line: status and ping\<close>

text \<open>\<^verbatim>\<open>show_status\<close>: the local record is read, or created when the file is missing;
  then each remote record is printed, which subscripts it.\<close>

fun print_remotes :: "(string \<times> json) list \<Rightarrow> exn option" where
  "print_remotes [] = None"
| "print_remotes ((host, d) # rest) =
     (case subscript d ''timestamp'' of
        Inl e \<Rightarrow> Some e
      | Inr ts \<Rightarrow>
          (case as_number ts of
             None \<Rightarrow> Some (number_error ts)
           | Some t \<Rightarrow>
               (case subscript d ''status'' of
                  Inl e \<Rightarrow> Some e
                | Inr _ \<Rightarrow>
                    (case subscript d ''current_task'' of
                       Inl e \<Rightarrow> Some e
                     | Inr _ \<Rightarrow> print_remotes rest))))"

definition show_status :: "proc \<Rightarrow> real \<Rightarrow> world \<Rightarrow> exn option \<times> world" where
  "show_status p now w =
     (let w1 = get_comms_dir w
      in (case (case map_of (presence w1) (get_hostname p) of
                  Some (Some j) \<Rightarrow> (Inr j, w1)
                | Some None \<Rightarrow> (Inl JSONDecodeError, w1)
                | None \<Rightarrow>
                    (case update p now ''active'' ''monitoring'' w1 of
                       (data, w2) \<Rightarrow> (Inr data, w2))) of
            (Inl e, w2) \<Rightarrow> (Some e, w2)
          | (Inr local, w2) \<Rightarrow>
              (case dict_get local ''hostname'' (JStr (get_hostname p)) of
                 Inl e \<Rightarrow> (Some e, w2)
               | Inr _ \<Rightarrow>
                   (case get_remote_status p w2 of
                      (remotes, w3) \<Rightarrow> (print_remotes remotes, w3)))))"

text \<open>The \<^verbatim>\<open>ping\<close> branch of \<^verbatim>\<open>main\<close>: the value returned, or the exception that leaves
  \<^verbatim>\<open>main\<close>; \<^verbatim>\<open>sys.exit(main())\<close> ends with status 1 on an uncaught exception.\<close>

definition ping :: "proc \<Rightarrow> real \<Rightarrow> string \<Rightarrow> world \<Rightarrow> (exn + int) \<times> world" where
  "ping p now host w =
     (case get_remote_status p w of (remotes, w1) \<Rightarrow>
        (case map_of remotes host of
           Some d \<Rightarrow>
             (case subscript d ''timestamp'' of
                Inl e \<Rightarrow> (Inl e, w1)
              | Inr ts \<Rightarrow>
                  (case as_number ts of
                     None \<Rightarrow> (Inl (number_error ts), w1)
                   | Some t \<Rightarrow> if now - t < 60 then (Inr 0, w1) else (Inr 1, w1)))
         | None \<Rightarrow> (Inr 1, w1)))"

definition exit_code :: "exn + int \<Rightarrow> int" where
  "exit_code r = (case r of Inl e \<Rightarrow> 1 | Inr c \<Rightarrow> c)"

subsection \<open>Agent loop\<close>

text \<open>What the handler calls outside this module: whether \<^verbatim>\<open>antigravity_automation.py\<close>
  is there, loading it and calling \<^verbatim>\<open>handle_antigravity_message\<close> (an empty response is
  falsy), \<^verbatim>\<open>subprocess.run([python, mcp.py, ...]).stdout\<close>, and \<^verbatim>\<open>str(e)\<close>.\<close>

record exec_env =
  ag_present :: bool
  ag_handle :: "json \<Rightarrow> exn + string"
  run_mcp :: "string list \<Rightarrow> exn + string"
  exn_text :: "exn \<Rightarrow> string"

definition handle_telegram_instruction :: "proc \<Rightarrow> exec_env \<Rightarrow> json \<Rightarrow> exn + string" where
  "handle_telegram_instruction p x text =
     (if lower (case identity_env p of Some i \<Rightarrow> i | None \<Rightarrow> []) = ''antigravity'' then
        (if ag_present x then
           (case ag_handle x text of
              Inr response \<Rightarrow>
                Inr (if response \<noteq> [] then response else ''[ERROR] No response from Antigravity'')
            | Inl e \<Rightarrow>
                if is_Exception e then Inr (''Error routing to Antigravity: '' @ exn_text x e)
                else Inl e)
         else Inr (''Antigravity automation module not found. '' @
                   ''Install with: python antigravity_automation.py install''))
      else
        (case text of
           JStr t \<Rightarrow>
             (if strip t = [] then Inr ''Empty command''
              else
                (case (if lower t = ''status'' then run_mcp x [''comms'', ''status'']
                       else if startswith (lower t) ''run ''
                       then run_mcp x [''nsync'', ''run'', strip (drop 4 t)]
                       else Inr (''Received: '' @ t @
                                 ''. (Smart execution for this command pending development)'')) of
                   Inr out \<Rightarrow> Inr out
                 | Inl e \<Rightarrow>
                     if is_Exception e then Inr (''Error executing task: '' @ exn_text x e)
                     else Inl e))
         | _ \<Rightarrow> Inl AttributeError))"

text \<open>The body of \<^verbatim>\<open>for m in msgs\<close>. An exception leaves with the state reached.\<close>

definition handle_message :: "proc \<Rightarrow> exec_env \<Rightarrow> real \<Rightarrow> json \<Rightarrow> world \<Rightarrow> exn \<times> world + world" where
  "handle_message p x now m w =
     (case subscript m ''from'' of
        Inl e \<Rightarrow> Inl (e, w)
      | Inr sender \<Rightarrow>
          (case subscript m ''type'' of
             Inl e \<Rightarrow> Inl (e, w)
           | Inr ty \<Rightarrow>
               if ty = JStr ''task'' \<or> ty = JStr ''instruction'' then
                 (case subscript m ''content'' of
                    Inl e \<Rightarrow> Inl (e, w)
                  | Inr content \<Rightarrow>
                      (case dict_get content ''text'' (JStr []) of
                         Inl e \<Rightarrow> Inl (e, w)
                       | Inr task_text \<Rightarrow>
                           (case handle_telegram_instruction p x task_text of
                              Inl e \<Rightarrow> Inl (e, w)
                            | Inr result \<Rightarrow>
                                Inr (snd (send_message p now sender ''result''
                                            (JObj [(''text'', JStr result)]) w)))))
               else Inr w))"

text \<open>The body of \<^verbatim>\<open>for tm in t_msgs\<close>.\<close>

definition handle_item :: "proc \<Rightarrow> exec_env \<Rightarrow> real \<Rightarrow> json \<Rightarrow> world \<Rightarrow> exn \<times> world + world" where
  "handle_item p x now tm w =
     (case subscript tm ''text'' of
        Inl e \<Rightarrow> Inl (e, w)
      | Inr t \<Rightarrow>
          (case handle_telegram_instruction p x t of
             Inl e \<Rightarrow> Inl (e, w)
           | Inr result \<Rightarrow>
               Inr (notify_user_telegram p now
                      (''Result for '' @ [CHR 0x27] @ fmt p t @ [CHR 0x27] @ '':'' @ [CHR 0x0A] @ result)
                      w)))"

fun handle_all ::
  "(real \<Rightarrow> json \<Rightarrow> world \<Rightarrow> exn \<times> world + world) \<Rightarrow> (nat \<Rightarrow> real) \<Rightarrow> nat \<Rightarrow> json list \<Rightarrow> world
     \<Rightarrow> exn \<times> world + world" where
  "handle_all h clk k [] w = Inr w"
| "handle_all h clk k (m # ms) w =
     (case h (clk k) m w of
        Inl ew \<Rightarrow> Inl ew
      | Inr w1 \<Rightarrow> handle_all h clk (Suc k) ms w1)"

text \<open>One turn of \<^verbatim>\<open>while True\<close> and what its surroundings do during it: the clock values
  it reads, the collaborators, whether \<^verbatim>\<open>KeyboardInterrupt\<close> arrives during the sleep, and
  the files that replication has brought in since the turn before.\<close>

record tick =
  clock :: "nat \<Rightarrow> real"
  execs :: exec_env
  sleep_interrupted :: bool
  arrived_mail :: "json option dir"
  arrived_items :: "tfile dir"

definition deliver :: "tick \<Rightarrow> world \<Rightarrow> world" where
  "deliver t w =
     w\<lparr>mailbox := fold (\<lambda>(n, c). write_file n c) (arrived_mail t) (mailbox w),
       inbox := fold (\<lambda>(n, c). write_file n c) (arrived_items t) (inbox w)\<rparr>"

definition loop_body :: "proc \<Rightarrow> tick \<Rightarrow> world \<Rightarrow> exn \<times> world + world" where
  "loop_body p t w =
     (case listen_for_messages p w of (msgs, w1) \<Rightarrow>
        (case handle_all (handle_message p (execs t)) (clock t) 1 msgs w1 of
           Inl ew \<Rightarrow> Inl ew
         | Inr w2 \<Rightarrow>
             (case listen_for_telegram_messages p (clock t 0) w2 of (t_msgs, w3) \<Rightarrow>
                (case handle_all (handle_item p (execs t)) (clock t) (Suc (length msgs)) t_msgs w3 of
                   Inl ew \<Rightarrow> Inl ew
                 | Inr w4 \<Rightarrow>
                     if sleep_interrupted t then Inl (KeyboardInterrupt, w4)
                     else Inr (snd (update p (clock t (Suc (length msgs + length t_msgs)))
                                      ''active'' ''listening for team tasks'' w4))))))"

text \<open>The loop, observed for as many turns as there are ticks: still running, stopped by
  \<^verbatim>\<open>except KeyboardInterrupt\<close>, or left by another exception.\<close>

datatype outcome = Running world | Stopped world | Crashed exn world

fun iterate :: "proc \<Rightarrow> tick list \<Rightarrow> world \<Rightarrow> outcome" where
  "iterate p [] w = Running w"
| "iterate p (t # ts) w =
     (case loop_body p t (deliver t w) of
        Inl (e, w1) \<Rightarrow> if e = KeyboardInterrupt then Stopped w1 else Crashed e w1
      | Inr w1 \<Rightarrow> iterate p ts w1)"

definition autonomous_loop :: "proc \<Rightarrow> real \<Rightarrow> tick list \<Rightarrow> world \<Rightarrow> outcome" where
  "autonomous_loop p now ticks w =
     iterate p ticks (snd (update p now ''active'' ''autonomous collaboration'' w))"

text \<open>A message that has the fields the loop reads, from a sender whose id can stand in a
  file name, and a channel item that has its text.\<close>

definition is_text :: "json \<Rightarrow> bool" where
  "is_text j = (case j of JStr _ \<Rightarrow> True | _ \<Rightarrow> False)"

definition is_host_id :: "json \<Rightarrow> bool" where
  "is_host_id j = (case j of JStr s \<Rightarrow> literal_id s | _ \<Rightarrow> False)"

definition wf_message :: "json \<Rightarrow> bool" where
  "wf_message m =
     (case subscript m ''from'' of
        Inl _ \<Rightarrow> False
      | Inr sender \<Rightarrow>
          is_host_id sender \<and>
          (case subscript m ''type'' of
             Inl _ \<Rightarrow> False
           | Inr ty \<Rightarrow>
               if ty = JStr ''task'' \<or> ty = JStr ''instruction'' then
                 (case subscript m ''content'' of
                    Inl _ \<Rightarrow> False
                  | Inr content \<Rightarrow>
                      (case dict_get content ''text'' (JStr []) of
                         Inl _ \<Rightarrow> False
                       | Inr t \<Rightarrow> is_text t))
               else True))"

definition wf_item :: "json \<Rightarrow> bool" where
  "wf_item tm = (case subscript tm ''text'' of Inl _ \<Rightarrow> False | Inr t \<Rightarrow> is_text t)"

definition wf_mail :: "json option dir \<Rightarrow> bool" where
  "wf_mail d = list_all (\<lambda>(n, c). case c of Some m \<Rightarrow> wf_message m | None \<Rightarrow> True) d"

definition wf_items :: "tfile dir \<Rightarrow> bool" where
  "wf_items d = list_all (\<lambda>(n, tf). case body tf of Some tm \<Rightarrow> wf_item tm | None \<Rightarrow> True) d"

definition wf_tick :: "tick \<Rightarrow> bool" where
  "wf_tick t = (wf_mail (arrived_mail t) \<and> wf_items (arrived_items t))"

text \<open>Collaborators that never raise \<^verbatim>\<open>KeyboardInterrupt\<close>, and a tick in which it is
  raised nowhere.\<close>

definition quiet :: "exec_env \<Rightarrow> bool" where
  "quiet x =
     ((\<forall>a. run_mcp x a \<noteq> Inl KeyboardInterrupt) \<and> (\<forall>a. ag_handle x a \<noteq> Inl KeyboardInterrupt))"

definition uninterrupted :: "tick \<Rightarrow> bool" where
  "uninterrupted t = (\<not> sleep_interrupted t \<and> quiet (execs t))"

text \<open>The exception that ended the loop, if it has ended.\<close>

definition exit_reason :: "outcome \<Rightarrow> exn option" where
  "exit_reason out =
     (case out of
        Running _ \<Rightarrow> None
      | Stopped _ \<Rightarrow> Some KeyboardInterrupt
      | Crashed e _ \<Rightarrow> Some e)"

subsection \<open>Replication: one sync cycle\<close>

text \<open>\<^verbatim>\<open>subprocess.run(cmd, capture_output=True)\<close> has no \<^verbatim>\<open>check=True\<close>: it returns the
  exit status, whatever it is, and raises only when the program cannot be started.\<close>

datatype run_result = Exited int | Not_started

datatype step = Ensure_rules_links | Chdir | Run "string list"

datatype sync_end = Sync_complete | Sync_failed | Raised

text \<open>The surroundings of one cycle: whether \<^verbatim>\<open>ensure_rules_links\<close> raises (it stands
  outside \<^verbatim>\<open>try\<close>), whether \<^verbatim>\<open>os.chdir\<close> raises, and what each command does.\<close>

record sync_env =
  links_raise :: bool
  chdir_raises :: bool
  run :: "string list \<Rightarrow> run_result"
  hostname :: string

definition get_remote_peer :: "sync_env \<Rightarrow> string" where
  "get_remote_peer env = (if lower (hostname env) = ''wizardpanda'' then ''quasar'' else ''wizardpanda'')"

definition git_commands :: "sync_env \<Rightarrow> string list list" where
  "git_commands env =
     [[''git'', ''add'', ''-A''],
      [''git'', ''commit'', ''-m'', ''nsync: auto-sync''],
      [''git'', ''pull'', ''--rebase'', get_remote_peer env, ''master''],
      [''git'', ''push'', get_remote_peer env, ''master'']]"

fun run_all :: "(string list \<Rightarrow> run_result) \<Rightarrow> string list list \<Rightarrow> step list \<times> sync_end" where
  "run_all r [] = ([], Sync_complete)"
| "run_all r (c # cs) =
     (case r c of
        Not_started \<Rightarrow> ([Run c], Sync_failed)
      | Exited _ \<Rightarrow> (case run_all r cs of (done, e) \<Rightarrow> (Run c # done, e)))"

definition sync :: "sync_env \<Rightarrow> step list \<times> sync_end" where
  "sync env =
     (if links_raise env then ([Ensure_rules_links], Raised)
      else if chdir_raises env then ([Ensure_rules_links, Chdir], Sync_failed)
      else (case run_all (run env) (git_commands env) of
              (done, e) \<Rightarrow> (Ensure_rules_links # Chdir # done, e)))"

text \<open>A step failed: it raised, or its command ended with a non-zero status.\<close>

definition step_failed :: "sync_env \<Rightarrow> step \<Rightarrow> bool" where
  "step_failed env s =
     (case s of
        Ensure_rules_links \<Rightarrow> links_raise env
      | Chdir \<Rightarrow> chdir_raises env
      | Run c \<Rightarrow> run env c \<noteq> Exited 0)"

definition step_raised :: "sync_env \<Rightarrow> step \<Rightarrow> bool" where
  "step_raised env s =
     (case s of
        Ensure_rules_links \<Rightarrow> links_raise env
      | Chdir \<Rightarrow> chdir_raises env
      | Run c \<Rightarrow> run env c = Not_started)"

definition all_steps :: "sync_env \<Rightarrow> step list" where
  "all_steps env = Ensure_rules_links # Chdir # map Run (git_commands env)"

subsection \<open>Notions of the statements and proofs\<close>

text \<open>A name whose file is there and parses, in the mailbox and in the channel inbox; the
  contents that a list of names stands for.\<close>

definition parsable :: "'a option dir \<Rightarrow> string \<Rightarrow> bool" where
  "parsable d n = (\<exists>j. map_of d n = Some (Some j))"

definition tparsable :: "tfile dir \<Rightarrow> string \<Rightarrow> bool" where
  "tparsable d n = (\<exists>tf j. map_of d n = Some tf \<and> body tf = Some j)"

definition bodies :: "tfile dir \<Rightarrow> string list \<Rightarrow> json list" where
  "bodies d ns = concat (map (\<lambda>n. case map_of d n of
        Some tf \<Rightarrow> (case body tf of Some j \<Rightarrow> [j] | None \<Rightarrow> []) | None \<Rightarrow> []) ns)"

text \<open>What the fallback pass takes: a parsed item older than 60 seconds, on a host that
  finds itself primary.\<close>

definition claimable :: "proc \<Rightarrow> real \<Rightarrow> world \<Rightarrow> string \<Rightarrow> bool" where
  "claimable p now w k =
     (\<exists>tf j. map_of (inbox w) k = Some tf \<and> body tf = Some j \<and> now - mtime tf > 60
        \<and> fst (is_primary p now w) = Inr True)"

text \<open>A target that the bridge leaves as it is, a name that the file system accepts for a
  file of the inbox, and the inbox file the bridge writes.\<close>

definition plain_target :: "string \<Rightarrow> bool" where
  "plain_target T = (lower T = T \<and> list_all (\<lambda>c. \<not> is_space c \<and> c \<noteq> CHR '':'' \<and> c \<noteq> CHR ''_'') T)"

definition file_name :: "string \<Rightarrow> bool" where
  "file_name n =
     (n \<noteq> [] \<and> n \<noteq> ''.'' \<and> n \<noteq> ''..'' \<and> CHR ''/'' \<notin> set n \<and> CHR 0x00 \<notin> set n
      \<and> utf8_length n \<le> 255)"

definition channel_item :: "real \<Rightarrow> string \<Rightarrow> tfile" where
  "channel_item now t = \<lparr>mtime = now, body = Some (JObj [(''text'', JStr t), (''timestamp'', JNum now)])\<rparr>"

text \<open>The texts of the authorized updates of a batch, each with its clock value, and the
  routing of a list of texts in order up to the first whose file cannot be created: the
  exception, if any, and the state reached.\<close>

definition authorized_texts :: "proc \<Rightarrow> json \<Rightarrow> (real \<times> tg_update) list \<Rightarrow> (real \<times> string) list" where
  "authorized_texts p chat us =
     map (\<lambda>(t, u). (t, update_text u)) (filter (\<lambda>(t, u). authorized p chat u) us)"

fun route_texts :: "proc \<Rightarrow> (real \<times> string) list \<Rightarrow> world \<Rightarrow> exn option \<times> world" where
  "route_texts p [] w = (None, w)"
| "route_texts p ((t, x) # xs) w =
     (case handle_instruction p t x w of
        Inl (e, w1) \<Rightarrow> (Some e, w1)
      | Inr w1 \<Rightarrow> route_texts p xs w1)"

subsection \<open>Example states\<close>

text \<open>A process on a POSIX host named \<open>h\<close> without \<^verbatim>\<open>AGENT_IDENTITY\<close>, where nothing
  can be written outside the inbox, and a host where nothing exists yet.\<close>

definition proc_of :: "string \<Rightarrow> proc" where
  "proc_of h = \<lparr>identity_env = None, socket_hostname = h, os_nt = False,
                ctime = (\<lambda>t. []), str_of = (\<lambda>j. []),
                open_outside = (\<lambda>n item w. Inl (OSError, w))\<rparr>"

definition empty_world :: world where
  "empty_world = \<lparr>comms_dir = False, presence = [], mailbox_dir = False, mailbox = [],
                  inbox_dir = False, inbox = [], outbox_dir = False, outbox = [], events = []\<rparr>"

text \<open>The states, ticks and surroundings at which the theorems are instantiated.\<close>

definition demo_send :: "string \<times> world" where
  "demo_send = send_message (proc_of ''A'') 5 (JStr ''B'') ''task'' (JObj [(''text'', JStr ''x'')]) empty_world"

definition demo_mailbox :: world where
  "demo_mailbox = empty_world\<lparr>mailbox :=
     [(''B_A_1.json'', Some (JStr ''hello'')),
      (''B_A_2.json'', None),
      (''C_A_3.json'', Some JNull),
      (''B_C_4.json'', Some (JInt 7))]\<rparr>"

definition demo_presence :: world where
  "demo_presence = empty_world\<lparr>comms_dir := True, presence :=
     [(''wizardpanda'', Some (JObj [(''hostname'', JStr ''wizardpanda''), (''timestamp'', JNum 990)])),
      (''quasar'', Some (JObj [(''hostname'', JStr ''quasar''), (''timestamp'', JNum 950)])),
      (''old'', Some (JObj [(''timestamp'', JNum 100)])),
      (''torn'', None)]\<rparr>"

definition demo_far :: world where
  "demo_far = empty_world\<lparr>comms_dir := True, presence :=
     [(''far'', Some (JObj [(''hostname'', JStr ''far''), (''timestamp'', JInt (10 ^ 400))]))]\<rparr>"

definition demo_slot :: "real \<Rightarrow> world" where
  "demo_slot quasar_seen = empty_world
     \<lparr>presence := [(''quasar'', Some (JObj [(''hostname'', JStr ''quasar''), (''timestamp'', JNum quasar_seen)]))],
      inbox := [(''Antigravity_1.json'',
                 \<lparr>mtime = 900, body = Some (JObj [(''text'', JStr ''status'')])\<rparr>)]\<rparr>"

definition demo_routed :: world where
  "demo_routed = (get_telegram_inbox_dir empty_world)
     \<lparr>inbox := [(''wizardpanda_5000.json'', channel_item 5 ''status'')]\<rparr>"

definition demo_bridge :: bridge where
  "demo_bridge =
     \<lparr>config = \<lparr>bot_token = JStr ''token'', chat_id = JInt 42, last_update_id = JInt 9\<rparr>,
      config_file = \<lparr>bot_token = JStr ''token'', chat_id = JInt 42, last_update_id = JInt 9\<rparr>\<rparr>"

definition demo_update :: "int \<Rightarrow> int \<Rightarrow> string \<Rightarrow> tg_update" where
  "demo_update i sender t =
     \<lparr>update_id = i, message = Some \<lparr>msg_text = Some t, from_id = Some sender\<rparr>\<rparr>"

definition demo_tick :: "json option dir \<Rightarrow> tick" where
  "demo_tick mail =
     \<lparr>clock = (\<lambda>k. 10 + real k),
      execs = \<lparr>ag_present = False, ag_handle = (\<lambda>t. Inl OSError), run_mcp = (\<lambda>a. Inl OSError),
               exn_text = (\<lambda>e. ''failed'')\<rparr>,
      sleep_interrupted = False,
      arrived_mail = mail,
      arrived_items = []\<rparr>"

definition demo_task :: json where
  "demo_task = JObj [(''from'', JStr ''A''), (''type'', JStr ''task''),
                     (''content'', JObj [(''text'', JStr ''status'')])]"

definition demo_sync_env :: sync_env where
  "demo_sync_env = \<lparr>links_raise = False, chdir_raises = False,
       run = (\<lambda>c. if c = [''git'', ''commit'', ''-m'', ''nsync: auto-sync''] then Exited 1 else Exited 0),
       hostname = ''quasar''\<rparr>"

section \<open>Properties\<close>

subsection \<open>The pattern of a literal id\<close>

lemma tokens_literal:
  "list_all (\<lambda>c. c \<notin> set ''*?['') s \<Longrightarrow> tokens (s @ p) = map Lit s @ tokens p"
  by (induction s) auto

lemma matches_literal:
  "matches (map Lit s @ ts) n = (prefix s n \<and> matches ts (drop (length s) n))"
proof (induction s arbitrary: n)
  case Nil
  then show ?case by simp
next
  case (Cons a s)
  then show ?case by (cases n) auto
qed

lemma matches_exact: "matches (map Lit s) n = (n = s)"
  using matches_literal [of s "[]" n]
  by (auto simp: prefix_def)

lemma matches_star_literal: "matches (Star # map Lit s) n = suffix s n"
proof (induction n)
  case Nil
  then show ?case by (auto simp: matches_exact)
next
  case (Cons c cs)
  then show ?case by (auto simp: matches_exact suffix_Cons)
qed

lemma glob_match_literal:
  assumes "literal_id pre"
  shows "glob_match pre n = (startswith n pre \<and> endswith (drop (length pre) n) ''.json'')"
proof -
  from assms have "list_all (\<lambda>c. c \<notin> set ''*?['') pre"
    by (simp add: literal_id_def list_all_iff)
  then have "tokens (pre @ ''*.json'') = map Lit pre @ Star # map Lit ''.json''"
    by (simp add: tokens_literal)
  then show ?thesis
    using matches_star_literal [of "''.json''" "drop (length pre) n"]
    by (simp add: glob_match_def fnmatch_def matches_literal startswith_def endswith_def
        suffix_to_prefix)
qed

lemma literal_id_underscore: "literal_id h \<Longrightarrow> literal_id (h @ ''_'')"
  by (simp add: literal_id_def)

lemma glob_match_host:
  "literal_id h \<Longrightarrow>
   glob_match (h @ ''_'') n = (startswith n (h @ ''_'') \<and> endswith (drop (Suc (length h)) n) ''.json'')"
  using glob_match_literal [OF literal_id_underscore, of h n] by simp

subsection \<open>Mailbox: what a receive returns and deletes\<close>

lemma mailbox_get_mailbox_dir [simp]:
  "mailbox (get_mailbox_dir w) = mailbox w" "events (get_mailbox_dir w) = events w"
  "presence (get_mailbox_dir w) = presence w" "inbox (get_mailbox_dir w) = inbox w"
  "outbox (get_mailbox_dir w) = outbox w"
  by (simp_all add: get_mailbox_dir_def get_comms_dir_def)

lemma read_message_parsable:
  "map_of (mailbox w) f = Some (Some j) \<Longrightarrow>
   read_message f (ms, w) = (ms @ [j], w\<lparr>mailbox := AList.delete f (mailbox w)\<rparr>)"
  by (simp add: read_message_def unlink_def)

lemma read_message_unparsable:
  "\<not> parsable (mailbox w) f \<Longrightarrow>
   read_message f (ms, w) = (ms, w\<lparr>events := events w @ [Warn_read f]\<rparr>)"
  by (auto simp: read_message_def parsable_def split: option.splits)

lemma parsable_delete: "parsable (AList.delete n d) k = (k \<noteq> n \<and> parsable d k)"
  by (auto simp: parsable_def AList.delete_conv')

lemma fold_read_message_mailbox:
  "mailbox (snd (fold read_message ns (ms, w))) =
     filter (\<lambda>(k, c). \<not> (k \<in> set ns \<and> parsable (mailbox w) k)) (mailbox w)"
proof (induction ns arbitrary: ms w)
  case Nil
  then show ?case by simp
next
  case (Cons n ns)
  show ?case
  proof (cases "parsable (mailbox w) n")
    case True
    then obtain j where j: "map_of (mailbox w) n = Some (Some j)"
      by (auto simp: parsable_def)
    have "filter (\<lambda>(k, c). \<not> (k \<in> set ns \<and> parsable (AList.delete n (mailbox w)) k))
            (AList.delete n (mailbox w))
          = filter (\<lambda>(k, c). \<not> (k \<in> set ns \<and> k \<noteq> n \<and> parsable (mailbox w) k))
              (AList.delete n (mailbox w))"
      by (simp add: parsable_delete)
    also have "\<dots> = filter (\<lambda>(k, c). \<not> (k \<in> set ns \<and> k \<noteq> n \<and> parsable (mailbox w) k))
              (filter (\<lambda>(k, c). n \<noteq> k) (mailbox w))"
      by (simp add: AList.delete_eq)
    also have "\<dots> = filter (\<lambda>(k, c). \<not> (k \<in> set (n # ns) \<and> parsable (mailbox w) k)) (mailbox w)"
      using True by (auto intro!: filter_cong)
    finally have "filter (\<lambda>(k, c). \<not> (k \<in> set ns \<and> parsable (AList.delete n (mailbox w)) k))
            (AList.delete n (mailbox w))
          = filter (\<lambda>(k, c). \<not> (k \<in> set (n # ns) \<and> parsable (mailbox w) k)) (mailbox w)" .
    then show ?thesis
      by (simp add: read_message_parsable [OF j] Cons.IH)
  next
    case False
    have "filter (\<lambda>(k, c). \<not> (k \<in> set ns \<and> parsable (mailbox w) k)) (mailbox w)
          = filter (\<lambda>(k, c). \<not> (k \<in> set (n # ns) \<and> parsable (mailbox w) k)) (mailbox w)"
      by (rule filter_cong) (use False in auto)
    then show ?thesis
      by (simp add: read_message_unparsable [OF False] Cons.IH)
  qed
qed

lemma fold_read_message_msgs:
  "distinct ns \<Longrightarrow>
   fst (fold read_message ns (ms, w)) =
     ms @ concat (map (\<lambda>n. case map_of (mailbox w) n of Some (Some j) \<Rightarrow> [j] | _ \<Rightarrow> []) ns)"
proof (induction ns arbitrary: ms w)
  case Nil
  then show ?case by simp
next
  case (Cons n ns)
  show ?case
  proof (cases "parsable (mailbox w) n")
    case True
    then obtain j where j: "map_of (mailbox w) n = Some (Some j)"
      by (auto simp: parsable_def)
    have "map (\<lambda>k. case map_of (AList.delete n (mailbox w)) k of Some (Some j) \<Rightarrow> [j] | _ \<Rightarrow> []) ns
          = map (\<lambda>k. case map_of (mailbox w) k of Some (Some j) \<Rightarrow> [j] | _ \<Rightarrow> []) ns"
    proof (rule map_cong [OF refl])
      fix x assume "x \<in> set ns"
      then have "x \<noteq> n" using Cons.prems by auto
      then show "(case map_of (AList.delete n (mailbox w)) x of Some (Some j) \<Rightarrow> [j] | _ \<Rightarrow> [])
                 = (case map_of (mailbox w) x of Some (Some j) \<Rightarrow> [j] | _ \<Rightarrow> [])"
        by simp
    qed
    then have "concat (map (\<lambda>k. case map_of (AList.delete n (mailbox w)) k of Some (Some j) \<Rightarrow> [j] | _ \<Rightarrow> []) ns)
          = concat (map (\<lambda>k. case map_of (mailbox w) k of Some (Some j) \<Rightarrow> [j] | _ \<Rightarrow> []) ns)"
      by (rule arg_cong)
    then show ?thesis
      using Cons.prems by (simp add: read_message_parsable [OF j] Cons.IH j)
  next
    case False
    then have "(case map_of (mailbox w) n of Some (Some j) \<Rightarrow> [j] | _ \<Rightarrow> []) = []"
      by (auto simp: parsable_def split: option.splits)
    then show ?thesis
      using Cons.prems by (simp add: read_message_unparsable [OF False] Cons.IH)
  qed
qed

lemma fold_read_message_events:
  "distinct ns \<Longrightarrow>
   events (snd (fold read_message ns (ms, w))) =
     events w @ map Warn_read (filter (\<lambda>n. \<not> parsable (mailbox w) n) ns)"
proof (induction ns arbitrary: ms w)
  case Nil
  then show ?case by simp
next
  case (Cons n ns)
  show ?case
  proof (cases "parsable (mailbox w) n")
    case True
    then obtain j where j: "map_of (mailbox w) n = Some (Some j)"
      by (auto simp: parsable_def)
    have "filter (\<lambda>k. \<not> parsable (AList.delete n (mailbox w)) k) ns
          = filter (\<lambda>k. \<not> parsable (mailbox w) k) ns"
      by (rule filter_cong) (use Cons.prems in \<open>auto simp: parsable_delete\<close>)
    then show ?thesis
      using Cons.prems True by (simp add: read_message_parsable [OF j] Cons.IH)
  next
    case False
    then show ?thesis
      using Cons.prems by (simp add: read_message_unparsable [OF False] Cons.IH)
  qed
qed

lemma fold_read_message_frame:
  "presence (snd (fold read_message ns s)) = presence (snd s)
   \<and> inbox (snd (fold read_message ns s)) = inbox (snd s)
   \<and> outbox (snd (fold read_message ns s)) = outbox (snd s)"
  by (induction ns arbitrary: s) (auto simp: read_message_def split: option.splits prod.splits)

text \<open>From names back to entries, in a directory with one entry per name.\<close>

lemma concat_parsed_filter:
  assumes "distinct (map fst d)" "set xs \<subseteq> set d"
  shows "concat (map (\<lambda>n. case map_of d n of Some (Some j) \<Rightarrow> [j] | _ \<Rightarrow> []) (filter P (map fst xs)))
         = map (\<lambda>(n, c). the c) (filter (\<lambda>(n, c). P n \<and> c \<noteq> None) xs)"
  using assms(2)
proof (induction xs)
  case Nil
  then show ?case by simp
next
  case (Cons x xs)
  obtain n c where x: "x = (n, c)" by (cases x)
  with Cons.prems assms(1) have "map_of d n = Some c" by simp
  with Cons x show ?case by (cases c) auto
qed

lemma unparsed_filter:
  assumes "distinct (map fst d)" "set xs \<subseteq> set d"
  shows "filter (\<lambda>n. \<not> parsable d n) (filter P (map fst xs))
         = map fst (filter (\<lambda>(n, c). P n \<and> c = None) xs)"
  using assms(2)
proof (induction xs)
  case Nil
  then show ?case by simp
next
  case (Cons x xs)
  obtain n c where x: "x = (n, c)" by (cases x)
  with Cons.prems assms(1) have "map_of d n = Some c" by simp
  with Cons x show ?case by (cases c) (auto simp: parsable_def)
qed

lemma remaining_filter:
  assumes "distinct (map fst d)"
  shows "filter (\<lambda>(k, c). \<not> (k \<in> set (filter P (map fst d)) \<and> parsable d k)) d
         = filter (\<lambda>(n, c). \<not> (P n \<and> c \<noteq> None)) d"
proof (rule filter_cong[OF refl])
  fix x assume "x \<in> set d"
  moreover obtain n c where x: "x = (n, c)" by (cases x)
  ultimately have "map_of d n = Some c" using assms by simp
  moreover note \<open>x \<in> set d\<close>
  moreover have "n \<in> fst ` set d" using x \<open>x \<in> set d\<close> by force
  ultimately show "(case x of (k, c) \<Rightarrow> \<not> (k \<in> set (filter P (map fst d)) \<and> parsable d k))
             = (case x of (n, c) \<Rightarrow> \<not> (P n \<and> c \<noteq> None))"
    using x by (cases c) (simp_all add: parsable_def)
qed

subsection \<open>Message keys\<close>

lemma get_hostname_proc_of [simp]: "get_hostname (proc_of h) = h"
  by (simp add: get_hostname_def proc_of_def)

lemma digit_inj: "a < 10 \<Longrightarrow> b < 10 \<Longrightarrow> digit a = digit b \<Longrightarrow> a = b"
  unfolding digit_def
  by (subst (asm) nth_eq_iff_index_eq) simp_all

lemma dec_nat_nonempty: "dec_nat n \<noteq> []"
  by (subst dec_nat.simps) simp

lemma dec_nat_digits: "set (dec_nat n) \<subseteq> set ''0123456789''"
proof (induction n rule: dec_nat.induct)
  case (1 n)
  have d: "digit k \<in> set ''0123456789''" if "k < 10" for k
    unfolding digit_def using that by (intro nth_mem) simp
  show ?case
  proof (cases "n < 10")
    case True
    then show ?thesis using d [of n] by (subst dec_nat.simps) simp
  next
    case False
    then show ?thesis using 1 d [of "n mod 10"] by (subst dec_nat.simps) simp
  qed
qed

lemma dec_nat_inj: "dec_nat n = dec_nat m \<Longrightarrow> n = m"
proof (induction n arbitrary: m rule: dec_nat.induct)
  case (1 n)
  show ?case
  proof (cases "n < 10")
    case n: True
    show ?thesis
    proof (cases "m < 10")
      case True
      with n 1(2) show ?thesis by (simp add: dec_nat.simps [of n] dec_nat.simps [of m] digit_inj)
    next
      case False
      with n 1(2) dec_nat_nonempty [of "m div 10"] show ?thesis
        by (simp add: dec_nat.simps [of n] dec_nat.simps [of m] Cons_eq_append_conv)
    qed
  next
    case n: False
    show ?thesis
    proof (cases "m < 10")
      case True
      with n 1(2) dec_nat_nonempty [of "n div 10"] show ?thesis
        by (simp add: dec_nat.simps [of n] dec_nat.simps [of m] append_eq_Cons_conv)
    next
      case False
      with n 1(2) have "dec_nat (n div 10) = dec_nat (m div 10)" "digit (n mod 10) = digit (m mod 10)"
        by (simp_all add: dec_nat.simps [of n] dec_nat.simps [of m])
      with 1(1) [OF n] have "n div 10 = m div 10" "n mod 10 = m mod 10"
        by (auto intro: digit_inj)
      then show ?thesis by (metis div_mult_mod_eq)
    qed
  qed
qed

lemma py_str_int_inj: "py_str_int i = py_str_int j \<Longrightarrow> i = j"
proof -
  have nm: "CHR ''-'' # dec_nat a \<noteq> dec_nat b" for a b
  proof
    assume "CHR ''-'' # dec_nat a = dec_nat b"
    then have "CHR ''-'' \<in> set (dec_nat b)" by (metis list.set_intros(1))
    with dec_nat_digits [of b] show False by auto
  qed
  assume "py_str_int i = py_str_int j"
  then show ?thesis
    using nm nm [symmetric]
    by (auto simp: py_str_int_def split: if_splits dest!: dec_nat_inj)
qed

lemma append_sep_eq:
  "x \<notin> set xs \<Longrightarrow> x \<notin> set xs' \<Longrightarrow> xs @ x # ys = xs' @ x # ys' \<Longrightarrow> xs = xs' \<and> ys = ys'"
  by (induction xs arbitrary: xs') (auto simp: Cons_eq_append_conv)

lemma msg_file_eq_iff:
  assumes "CHR ''_'' \<notin> set r1" "CHR ''_'' \<notin> set s1" "CHR ''_'' \<notin> set r2" "CHR ''_'' \<notin> set s2"
  shows "msg_file r1 s1 i1 = msg_file r2 s2 i2 \<longleftrightarrow> r1 = r2 \<and> s1 = s2 \<and> i1 = i2"
proof
  assume "msg_file r1 s1 i1 = msg_file r2 s2 i2"
  then have "r1 @ CHR ''_'' # (s1 @ CHR ''_'' # py_str_int i1)
           = r2 @ CHR ''_'' # (s2 @ CHR ''_'' # py_str_int i2)"
    by (simp add: msg_file_def)
  from append_sep_eq [OF assms(1,3) this] have r: "r1 = r2"
    and "s1 @ CHR ''_'' # py_str_int i1 = s2 @ CHR ''_'' # py_str_int i2"
    by simp_all
  from append_sep_eq [OF assms(2,4) this(2)] have s: "s1 = s2" and "py_str_int i1 = py_str_int i2"
    by simp_all
  then have "i1 = i2" by (simp add: py_str_int_inj)
  with r s show "r1 = r2 \<and> s1 = s2 \<and> i1 = i2" by simp
next
  assume "r1 = r2 \<and> s1 = s2 \<and> i1 = i2"
  then show "msg_file r1 s1 i1 = msg_file r2 s2 i2" by simp
qed

lemma fst_send_message:
  "fst (send_message p now r ty c w) = msg_file (fmt p r) (get_hostname p) (msg_id now)"
  by (simp add: send_message_def Let_def)

lemma mailbox_send_message:
  "mailbox (snd (send_message p now r ty c w)) =
     AList.update (msg_file (fmt p r) (get_hostname p) (msg_id now)) (Some (payload p now r ty c)) (mailbox w)"
  by (simp add: send_message_def Let_def trigger_nsync_def write_file_def)

text \<open>Claim C3, as the code has it. For host ids without an underscore, two sends get the
  same mailbox file name exactly when they have the same recipient, the same sender and
  the same millisecond id \<^verbatim>\<open>int(time.time() * 1000)\<close>; and when a host sends twice to
  one recipient within one millisecond, the file holds the later message only.\<close>

theorem send_key_collision_iff:
  assumes "CHR ''_'' \<notin> set r1" "CHR ''_'' \<notin> set (get_hostname p1)"
    and "CHR ''_'' \<notin> set r2" "CHR ''_'' \<notin> set (get_hostname p2)"
  shows "(fst (send_message p1 t1 (JStr r1) ty1 c1 w1) = fst (send_message p2 t2 (JStr r2) ty2 c2 w2)
            \<longleftrightarrow> r1 = r2 \<and> get_hostname p1 = get_hostname p2 \<and> msg_id t1 = msg_id t2)
       \<and> (msg_id t1 = msg_id t2 \<longrightarrow>
            map_of (mailbox (snd (send_message p1 t2 (JStr r1) ty2 c2
                                    (snd (send_message p1 t1 (JStr r1) ty1 c1 w)))))
                   (fst (send_message p1 t1 (JStr r1) ty1 c1 w))
              = Some (Some (payload p1 t2 (JStr r1) ty2 c2)))"
  using assms
  by (simp add: fst_send_message mailbox_send_message fmt_def msg_file_eq_iff AList.update_conv')

theorem send_key_collision_iff_witness:
  "CHR ''_'' \<notin> set ''B'' \<and> CHR ''_'' \<notin> set (get_hostname (proc_of ''A''))
   \<and> fst (send_message (proc_of ''A'') 5 (JStr ''B'') ''task'' JNull empty_world)
       \<noteq> fst (send_message (proc_of ''A'') 6 (JStr ''B'') ''task'' JNull empty_world)
   \<and> map_of (mailbox (snd (send_message (proc_of ''A'') (5 + 1 / 10000) (JStr ''B'') ''ack'' (JStr ''second'')
                             (snd (send_message (proc_of ''A'') 5 (JStr ''B'') ''task'' (JStr ''first'') empty_world)))))
            (fst (send_message (proc_of ''A'') 5 (JStr ''B'') ''task'' (JStr ''first'') empty_world))
       = Some (Some (payload (proc_of ''A'') (5 + 1 / 10000) (JStr ''B'') ''ack'' (JStr ''second'')))"
  using send_key_collision_iff [of "''B''" "proc_of ''A''" "''B''" "proc_of ''A''" 5 "''task''" JNull empty_world
      6 "''task''" JNull empty_world]
    send_key_collision_iff [of "''B''" "proc_of ''A''" "''B''" "proc_of ''A''" 5 "''task''" "JStr ''first''" empty_world
      "5 + 1 / 10000" "''ack''" "JStr ''second''" empty_world empty_world]
  by (simp add: msg_id_def py_int_def fst_send_message)

text \<open>Claim C3 as stated fails: two distinct sends from A to B, 0.3 ms apart, get the same
  file name, and the mailbox holds one file with the second message.\<close>

theorem send_key_collision_counterexample:
  "(10000001 / 10000 :: real) \<noteq> 10000004 / 10000
   \<and> fst (send_message (proc_of ''A'') (10000001 / 10000) (JStr ''B'') ''task'' (JObj [(''text'', JStr ''one'')]) empty_world)
     = fst (send_message (proc_of ''A'') (10000004 / 10000) (JStr ''B'') ''task'' (JObj [(''text'', JStr ''two'')]) empty_world)
   \<and> mailbox (snd (send_message (proc_of ''A'') (10000004 / 10000) (JStr ''B'') ''task'' (JObj [(''text'', JStr ''two'')])
        (snd (send_message (proc_of ''A'') (10000001 / 10000) (JStr ''B'') ''task'' (JObj [(''text'', JStr ''one'')]) empty_world))))
     = [(''B_A_1000000.json'',
         Some (payload (proc_of ''A'') (10000004 / 10000) (JStr ''B'') ''task'' (JObj [(''text'', JStr ''two'')])))]"
  by (simp add: fst_send_message mailbox_send_message fmt_def msg_file_def msg_id_def py_int_def
      py_str_int_def dec_nat.simps digit_def empty_world_def)

subsection \<open>Mailbox round trip\<close>

lemma listen_for_messages_result:
  assumes "distinct (names (mailbox w))"
  shows "fst (listen_for_messages p w) = map (\<lambda>(n, c). the c)
                  (filter (\<lambda>(n, c). glob_match (get_hostname p @ ''_'') n \<and> c \<noteq> None) (mailbox w))"
    and "mailbox (snd (listen_for_messages p w))
           = filter (\<lambda>(n, c). \<not> (glob_match (get_hostname p @ ''_'') n \<and> c \<noteq> None)) (mailbox w)"
    and "events (snd (listen_for_messages p w)) = events w @ map Warn_read
                  (map fst (filter (\<lambda>(n, c). glob_match (get_hostname p @ ''_'') n \<and> c = None) (mailbox w)))"
proof -
  let ?P = "glob_match (get_hostname p @ ''_'')"
  let ?ns = "filter ?P (map fst (mailbox w))"
  have d: "distinct (map fst (mailbox w))" using assms(1) by (simp add: names_def)
  then have dn: "distinct ?ns" by simp
  have run: "listen_for_messages p w = fold read_message ?ns ([], get_mailbox_dir w)"
    by (simp add: listen_for_messages_def glob_def names_def)
  show "fst (listen_for_messages p w) = map (\<lambda>(n, c). the c) (filter (\<lambda>(n, c). ?P n \<and> c \<noteq> None) (mailbox w))"
    using fold_read_message_msgs [OF dn] concat_parsed_filter [OF d subset_refl, of ?P]
    by (simp add: run)
  show "mailbox (snd (listen_for_messages p w)) = filter (\<lambda>(n, c). \<not> (?P n \<and> c \<noteq> None)) (mailbox w)"
    using fold_read_message_mailbox [of ?ns "[]" "get_mailbox_dir w"] remaining_filter [OF d, of ?P]
    by (simp add: run)
  show "events (snd (listen_for_messages p w))
        = events w @ map Warn_read (map fst (filter (\<lambda>(n, c). ?P n \<and> c = None) (mailbox w)))"
    using fold_read_message_events [OF dn, of "[]" "get_mailbox_dir w"]
      unparsed_filter [OF d subset_refl, of ?P] by (simp add: run)
qed

lemma glob_match_msg_file: "literal_id r \<Longrightarrow> glob_match (r @ ''_'') (msg_file r s i)"
  by (simp add: glob_match_host msg_file_def startswith_def endswith_def)

text \<open>Claim C2, as the code has it. Let the id of host B have none of the characters that
  \<^verbatim>\<open>glob\<close> interprets, and let the file system accept the name \<^verbatim>\<open>B_A_id.json\<close> of the
  message file (no \<^verbatim>\<open>/\<close>, no NUL, at most 255 bytes). After a send of \<open>{text: x}\<close> by host A
  to host B into an empty mailbox, the first \<^verbatim>\<open>listen_for_messages\<close> of B returns exactly
  that message, with that content, and deletes its file; the second returns nothing.\<close>

theorem mailbox_round_trip:
  assumes empty: "mailbox w = []"
    and lit: "literal_id (get_hostname pb)"
    and send: "send_message pa t (JStr (get_hostname pb)) ty (JObj [(''text'', JStr x)]) w = (f, w1)"
    and name: "file_name f"
    and first: "listen_for_messages pb w1 = (msgs, w2)"
    and second: "listen_for_messages pb w2 = (msgs', w3)"
  shows "msgs = [payload pa t (JStr (get_hostname pb)) ty (JObj [(''text'', JStr x)])]
         \<and> map (\<lambda>m. subscript m ''content'') msgs = [Inr (JObj [(''text'', JStr x)])]
         \<and> mailbox w2 = []
         \<and> msgs' = []"
proof -
  let ?f = "msg_file (get_hostname pb) (get_hostname pa) (msg_id t)"
  let ?m = "payload pa t (JStr (get_hostname pb)) ty (JObj [(''text'', JStr x)])"
  have w1: "mailbox w1 = [(?f, Some ?m)]"
    using mailbox_send_message [of pa t "JStr (get_hostname pb)" ty "JObj [(''text'', JStr x)]" w] empty send
    by (simp add: fmt_def)
  have g: "glob_match (get_hostname pb @ ''_'') ?f" using lit by (rule glob_match_msg_file)
  have d1: "distinct (names (mailbox w1))" by (simp add: w1 names_def)
  have msgs: "msgs = [?m]"
    using listen_for_messages_result(1) [OF d1, of pb] first by (simp add: w1 g)
  have w2: "mailbox w2 = []"
    using listen_for_messages_result(2) [OF d1, of pb] first by (simp add: w1 g)
  have d2: "distinct (names (mailbox w2))" by (simp add: w2 names_def)
  have "msgs' = []"
    using listen_for_messages_result(1) [OF d2, of pb] second by (simp add: w2)
  with msgs w2 show ?thesis by (simp add: payload_def)
qed

lemma demo_send_name: "file_name (fst demo_send)"
  by (simp add: demo_send_def fst_send_message fmt_def msg_file_def msg_id_def py_int_def
      py_str_int_def dec_nat.simps digit_def file_name_def utf8_length_def)

theorem mailbox_round_trip_witness:
  "mailbox empty_world = []
   \<and> literal_id (get_hostname (proc_of ''B'')) \<and> file_name (fst demo_send)
   \<and> fst (listen_for_messages (proc_of ''B'') (snd demo_send))
       = [payload (proc_of ''A'') 5 (JStr ''B'') ''task'' (JObj [(''text'', JStr ''x'')])]
   \<and> mailbox (snd (listen_for_messages (proc_of ''B'') (snd demo_send))) = []
   \<and> fst (listen_for_messages (proc_of ''B'') (snd (listen_for_messages (proc_of ''B'') (snd demo_send)))) = []"
  using mailbox_round_trip [of empty_world "proc_of ''B''" "proc_of ''A''" 5 "''task''" "''x''"
      "fst demo_send" "snd demo_send"
      "fst (listen_for_messages (proc_of ''B'') (snd demo_send))"
      "snd (listen_for_messages (proc_of ''B'') (snd demo_send))"
      "fst (listen_for_messages (proc_of ''B'') (snd (listen_for_messages (proc_of ''B'') (snd demo_send))))"
      "snd (listen_for_messages (proc_of ''B'') (snd (listen_for_messages (proc_of ''B'') (snd demo_send))))"]
    demo_send_name
  by (simp add: demo_send_def empty_world_def literal_id_def)

text \<open>Claim C2 as stated fails for the host id \<^verbatim>\<open>B[1]\<close>: the pattern \<^verbatim>\<open>B[1]_*.json\<close> of the
  receiver takes \<^verbatim>\<open>[1]\<close> for a character class and does not match the file
  \<^verbatim>\<open>B[1]_A_5000.json\<close> that the send has written; the receive returns nothing and the file
  stays.\<close>

theorem mailbox_round_trip_bracket_id_counterexample:
  "get_hostname (proc_of ''B[1]'') = ''B[1]''
   \<and> mailbox (snd (send_message (proc_of ''A'') 5 (JStr ''B[1]'') ''task''
                   (JObj [(''text'', JStr ''x'')]) empty_world))
     = [(''B[1]_A_5000.json'',
         Some (payload (proc_of ''A'') 5 (JStr ''B[1]'') ''task'' (JObj [(''text'', JStr ''x'')])))]
   \<and> fst (listen_for_messages (proc_of ''B[1]'')
            (snd (send_message (proc_of ''A'') 5 (JStr ''B[1]'') ''task''
                    (JObj [(''text'', JStr ''x'')]) empty_world))) = []
   \<and> mailbox (snd (listen_for_messages (proc_of ''B[1]'')
            (snd (send_message (proc_of ''A'') 5 (JStr ''B[1]'') ''task''
                    (JObj [(''text'', JStr ''x'')]) empty_world))))
     = [(''B[1]_A_5000.json'',
         Some (payload (proc_of ''A'') 5 (JStr ''B[1]'') ''task'' (JObj [(''text'', JStr ''x'')])))]"
proof -
  have m: "mailbox (snd (send_message (proc_of ''A'') 5 (JStr ''B[1]'') ''task''
                   (JObj [(''text'', JStr ''x'')]) empty_world))
     = [(''B[1]_A_5000.json'',
         Some (payload (proc_of ''A'') 5 (JStr ''B[1]'') ''task'' (JObj [(''text'', JStr ''x'')])))]"
    by (simp add: mailbox_send_message fmt_def msg_file_def msg_id_def py_int_def py_str_int_def
        dec_nat.simps digit_def empty_world_def)
  have g: "\<not> glob_match ''B[1]_'' ''B[1]_A_5000.json''"
    by (simp add: glob_match_def fnmatch_def class_closes_def mk_class_def)
  show ?thesis
    by (simp add: listen_for_messages_def Let_def m glob_def names_def g)
qed

text \<open>Claim C7. \<^verbatim>\<open>listen_for_messages\<close> returns exactly the contents of the caller's files
  that parse, deletes exactly those files, and reports exactly the caller's files that do
  not parse, which stay in the mailbox with every other file.\<close>

theorem receive_deletes_parsed_only:
  assumes "distinct (names (mailbox w))"
    and "literal_id (get_hostname p)"
    and "listen_for_messages p w = (msgs, w')"
  shows "msgs = map (\<lambda>(n, c). the c)
                  (filter (\<lambda>(n, c). glob_match (get_hostname p @ ''_'') n \<and> c \<noteq> None) (mailbox w))
         \<and> mailbox w' = filter (\<lambda>(n, c). \<not> (glob_match (get_hostname p @ ''_'') n \<and> c \<noteq> None)) (mailbox w)
         \<and> events w' = events w @ map Warn_read
                  (map fst (filter (\<lambda>(n, c). glob_match (get_hostname p @ ''_'') n \<and> c = None) (mailbox w)))"
  using listen_for_messages_result [OF assms(1), of p] assms(3) by simp

theorem receive_deletes_parsed_only_witness:
  "distinct (names (mailbox demo_mailbox)) \<and> literal_id (get_hostname (proc_of ''B''))
   \<and> fst (listen_for_messages (proc_of ''B'') demo_mailbox) = [JStr ''hello'', JInt 7]
   \<and> mailbox (snd (listen_for_messages (proc_of ''B'') demo_mailbox))
       = [(''B_A_2.json'', None), (''C_A_3.json'', Some JNull)]
   \<and> events (snd (listen_for_messages (proc_of ''B'') demo_mailbox)) = [Warn_read ''B_A_2.json'']"
  using receive_deletes_parsed_only [of demo_mailbox "proc_of ''B''"
      "fst (listen_for_messages (proc_of ''B'') demo_mailbox)"
      "snd (listen_for_messages (proc_of ''B'') demo_mailbox)"]
  by (simp add: demo_mailbox_def empty_world_def names_def literal_id_def glob_match_literal
      startswith_def endswith_def)

subsection \<open>The command line: ping and status\<close>

lemma map_of_remotes:
  assumes "distinct (map fst d)"
  shows "map_of (concat (map (\<lambda>(stem, c). case c of Some j \<Rightarrow> if stem \<noteq> h then [(stem, j)] else []
                                  | None \<Rightarrow> []) d)) host
         = (if host \<noteq> h then (case map_of d host of Some (Some j) \<Rightarrow> Some j | _ \<Rightarrow> None) else None)"
  using assms
proof (induction d)
  case Nil
  then show ?case by simp
next
  case (Cons x d)
  obtain n c where x: "x = (n, c)" by (cases x)
  from Cons.prems x have "map_of d n = None"
    by (simp add: map_of_eq_None_iff)
  with Cons x show ?case by (cases c) auto
qed

lemma get_remote_status_world [simp]: "snd (get_remote_status p w) = get_comms_dir w"
  by (simp add: get_remote_status_def)

lemma map_of_get_remote_status:
  "distinct (names (presence w)) \<Longrightarrow>
   map_of (fst (get_remote_status p w)) host
     = (if host \<noteq> get_hostname p
        then (case map_of (presence w) host of Some (Some j) \<Rightarrow> Some j | _ \<Rightarrow> None) else None)"
  by (simp add: get_remote_status_def names_def map_of_remotes)

text \<open>Claim C8, as the code has it. \<^verbatim>\<open>ping host\<close> ends with status 0 exactly when a record
  of \<open>host\<close> other than the caller's own parses, has a timestamp that is a number within
  the range of a float, and is younger than 60 seconds; otherwise with status 1, also when
  the timestamp is missing, is no number or is an integer too large for a float, where an
  exception ends the command. No file changes; the comms directory is created.\<close>

theorem ping_exit_code:
  assumes "distinct (names (presence w))"
  shows "(exit_code (fst (ping p now host w)) = 0 \<longleftrightarrow>
            (\<exists>d ts t. (host, Some d) \<in> set (presence w) \<and> host \<noteq> get_hostname p
                \<and> subscript d ''timestamp'' = Inr ts \<and> as_number ts = Some t \<and> now - t < 60))
         \<and> (exit_code (fst (ping p now host w)) = 0 \<or> exit_code (fst (ping p now host w)) = 1)
         \<and> snd (ping p now host w) = w\<lparr>comms_dir := True\<rparr>"
proof -
  have d: "distinct (map fst (presence w))" using assms by (simp add: names_def)
  have m: "map_of (presence w) host = Some c \<longleftrightarrow> (host, c) \<in> set (presence w)" for c
    using d by simp
  obtain remotes w1 where r: "get_remote_status p w = (remotes, w1)" by (cases "get_remote_status p w")
  then have w1: "w1 = w\<lparr>comms_dir := True\<rparr>"
    and rm: "map_of remotes host = (if host \<noteq> get_hostname p
        then (case map_of (presence w) host of Some (Some j) \<Rightarrow> Some j | _ \<Rightarrow> None) else None)"
    using map_of_get_remote_status [OF assms, of p host]
    by (auto simp: get_remote_status_def get_comms_dir_def)
  show ?thesis
    unfolding ping_def r prod.case rm w1
    by (auto simp: exit_code_def m [symmetric] split: option.splits sum.splits)
qed

theorem ping_exit_code_witness:
  "distinct (names (presence demo_presence)) \<and> distinct (names (presence demo_far))
   \<and> exit_code (fst (ping (proc_of ''wizardpanda'') 1000 ''quasar'' demo_presence)) = 0
   \<and> exit_code (fst (ping (proc_of ''wizardpanda'') 1000 ''old'' demo_presence)) = 1
   \<and> snd (ping (proc_of ''wizardpanda'') 1000 ''old'' demo_presence) = demo_presence
   \<and> exit_code (fst (ping (proc_of ''wizardpanda'') 1000 ''far'' demo_far)) = 1"
  using ping_exit_code [of demo_presence "proc_of ''wizardpanda''" 1000 "''quasar''"]
    ping_exit_code [of demo_presence "proc_of ''wizardpanda''" 1000 "''old''"]
    ping_exit_code [of demo_far "proc_of ''wizardpanda''" 1000 "''far''"]
  by (auto simp: demo_presence_def demo_far_def empty_world_def names_def in_float_range_def)

text \<open>Claim C8 as stated fails: where the comms directory is missing, a ping that ends with
  status 1 creates it.\<close>

theorem ping_creates_comms_dir_counterexample:
  "exit_code (fst (ping (proc_of ''wizardpanda'') 1000 ''quasar'' empty_world)) = 1
   \<and> snd (ping (proc_of ''wizardpanda'') 1000 ''quasar'' empty_world) \<noteq> empty_world
   \<and> comms_dir (snd (ping (proc_of ''wizardpanda'') 1000 ''quasar'' empty_world))
   \<and> \<not> comms_dir empty_world"
  by (simp add: ping_def get_remote_status_def get_comms_dir_def exit_code_def empty_world_def)

lemma empty_world_fields [simp]:
  "presence empty_world = []" "mailbox empty_world = []" "inbox empty_world = []"
  "outbox empty_world = []" "events empty_world = []" "\<not> comms_dir empty_world"
  by (simp_all add: empty_world_def)

lemma demo_presence_fields:
  "presence demo_presence =
     [(''wizardpanda'', Some (JObj [(''hostname'', JStr ''wizardpanda''), (''timestamp'', JNum 990)])),
      (''quasar'', Some (JObj [(''hostname'', JStr ''quasar''), (''timestamp'', JNum 950)])),
      (''old'', Some (JObj [(''timestamp'', JNum 100)])),
      (''torn'', None)]"
  "events demo_presence = []"
  by (simp_all add: demo_presence_def)

text \<open>Claim C10. When the caller's own presence file is missing, \<^verbatim>\<open>show_status\<close> does what
  \<^verbatim>\<open>AgentPresence.update()\<close> does: it writes a fresh record with status \<^verbatim>\<open>active\<close> and task
  \<^verbatim>\<open>monitoring\<close> and launches one replication attempt. When the file exists, no file changes
  and nothing is launched.\<close>

theorem status_creates_missing_presence:
  "(map_of (presence w) (get_hostname p) = None \<longrightarrow>
      snd (show_status p now w) = snd (update p now ''active'' ''monitoring'' w)
      \<and> presence (snd (show_status p now w))
          = write_file (get_hostname p) (Some (presence_data p now ''active'' ''monitoring'')) (presence w)
      \<and> events (snd (show_status p now w)) = events w @ [Sync_attempt])
   \<and> (map_of (presence w) (get_hostname p) \<noteq> None \<longrightarrow>
      presence (snd (show_status p now w)) = presence w
      \<and> mailbox (snd (show_status p now w)) = mailbox w
      \<and> inbox (snd (show_status p now w)) = inbox w
      \<and> outbox (snd (show_status p now w)) = outbox w
      \<and> events (snd (show_status p now w)) = events w)"
  by (auto simp: show_status_def update_def get_remote_status_def get_comms_dir_def trigger_nsync_def
      Let_def presence_data_def split: option.splits sum.splits prod.splits)

theorem status_creates_missing_presence_witness:
  "map_of (presence empty_world) (get_hostname (proc_of ''quasar'')) = None
   \<and> presence (snd (show_status (proc_of ''quasar'') 1000 empty_world))
       = [(''quasar'', Some (presence_data (proc_of ''quasar'') 1000 ''active'' ''monitoring''))]
   \<and> events (snd (show_status (proc_of ''quasar'') 1000 empty_world)) = [Sync_attempt]
   \<and> map_of (presence demo_presence) (get_hostname (proc_of ''quasar'')) \<noteq> None
   \<and> presence (snd (show_status (proc_of ''quasar'') 1000 demo_presence)) = presence demo_presence
   \<and> events (snd (show_status (proc_of ''quasar'') 1000 demo_presence)) = []"
  using status_creates_missing_presence [of empty_world "proc_of ''quasar''" 1000]
    status_creates_missing_presence [of demo_presence "proc_of ''quasar''" 1000]
  by (simp add: demo_presence_fields write_file_def update_def trigger_nsync_def get_comms_dir_def Let_def)

subsection \<open>Replication: the steps of a cycle\<close>

lemma run_all_steps:
  "fst (run_all r cs) =
     map Run (takeWhile (\<lambda>c. r c \<noteq> Not_started) cs) @ map Run (take 1 (dropWhile (\<lambda>c. r c \<noteq> Not_started) cs))"
  by (induction cs) (auto split: run_result.splits prod.splits)

lemma run_all_no_raise:
  "\<forall>c \<in> set cs. r c \<noteq> Not_started \<Longrightarrow> run_all r cs = (map Run cs, Sync_complete)"
  by (induction cs) (auto split: run_result.splits)

text \<open>Claim C4, as the code has it. The steps of a cycle run in their fixed order up to and
  including the first step that raises; a command that ends with a non-zero status does not
  raise, so when every command can be started the whole cycle runs, whatever the statuses.\<close>

theorem sync_runs_until_a_step_raises:
  "fst (sync env) = takeWhile (\<lambda>s. \<not> step_raised env s) (all_steps env)
                    @ take 1 (dropWhile (\<lambda>s. \<not> step_raised env s) (all_steps env))
   \<and> ((\<forall>s \<in> set (all_steps env). \<not> step_raised env s) \<longrightarrow>
        sync env = (all_steps env, Sync_complete))"
proof -
  have tw: "takeWhile (\<lambda>s. \<not> step_raised env s) (map Run cs)
            = map Run (takeWhile (\<lambda>c. run env c \<noteq> Not_started) cs)" for cs
    by (induction cs) (auto simp: step_raised_def)
  have dw: "dropWhile (\<lambda>s. \<not> step_raised env s) (map Run cs)
            = map Run (dropWhile (\<lambda>c. run env c \<noteq> Not_started) cs)" for cs
    by (induction cs) (auto simp: step_raised_def)
  have sr: "step_raised env Ensure_rules_links = links_raise env"
    "step_raised env Chdir = chdir_raises env"
    by (simp_all add: step_raised_def)
  have 1: "fst (sync env) = takeWhile (\<lambda>s. \<not> step_raised env s) (all_steps env)
                    @ take 1 (dropWhile (\<lambda>s. \<not> step_raised env s) (all_steps env))"
    using run_all_steps [of "run env" "git_commands env"]
    by (cases "run_all (run env) (git_commands env)")
      (simp add: sync_def all_steps_def sr tw dw take_map)
  have 2: "sync env = (all_steps env, Sync_complete)"
    if "\<forall>s \<in> set (all_steps env). \<not> step_raised env s"
  proof -
    from that have "\<forall>c \<in> set (git_commands env). run env c \<noteq> Not_started"
      and "\<not> links_raise env" "\<not> chdir_raises env"
      by (auto simp: all_steps_def step_raised_def)
    then have "run_all (run env) (git_commands env) = (map Run (git_commands env), Sync_complete)"
      by (simp add: run_all_no_raise)
    with \<open>\<not> links_raise env\<close> \<open>\<not> chdir_raises env\<close> show ?thesis
      by (simp add: sync_def all_steps_def)
  qed
  from 1 2 show ?thesis by blast
qed

theorem sync_runs_until_a_step_raises_witness:
  "list_all (\<lambda>s. \<not> step_raised demo_sync_env s) (all_steps demo_sync_env)
   \<and> sync demo_sync_env = (all_steps demo_sync_env, Sync_complete)"
  using sync_runs_until_a_step_raises [of demo_sync_env]
  by (simp add: demo_sync_env_def all_steps_def git_commands_def step_raised_def)

text \<open>Claim C4 as stated fails: the commit ends with status 1 (nothing to commit), and the
  pull and the push still run.\<close>

theorem sync_continues_after_failed_commit_counterexample:
  "step_failed demo_sync_env (Run [''git'', ''commit'', ''-m'', ''nsync: auto-sync''])
   \<and> fst (sync demo_sync_env) =
       [Ensure_rules_links, Chdir,
        Run [''git'', ''add'', ''-A''],
        Run [''git'', ''commit'', ''-m'', ''nsync: auto-sync''],
        Run [''git'', ''pull'', ''--rebase'', ''wizardpanda'', ''master''],
        Run [''git'', ''push'', ''wizardpanda'', ''master'']]"
  by (simp add: sync_def demo_sync_env_def step_failed_def git_commands_def get_remote_peer_def
      lower_def lower_char_def)

subsection \<open>Channel bridge: the inbound poll\<close>

lemma route_updates_texts:
  "fst (route_updates p chat us (l, w)) = fst (route_texts p (authorized_texts p chat us) w)
   \<and> snd (snd (route_updates p chat us (l, w))) = snd (route_texts p (authorized_texts p chat us) w)"
proof (induction us arbitrary: l w)
  case Nil
  then show ?case by (simp add: authorized_texts_def)
next
  case (Cons x us)
  obtain t u where x: "x = (t, u)" by (cases x)
  show ?case
  proof (cases "authorized p chat u")
    case True
    show ?thesis
    proof (cases "handle_instruction p t (update_text u) w")
      case (Inl ew)
      obtain e w1 where "ew = (e, w1)" by (cases ew)
      with True Inl show ?thesis by (simp add: x authorized_texts_def)
    next
      case (Inr w1)
      with True Cons.IH [of "JInt (update_id u)" w1] show ?thesis
        by (simp add: x authorized_texts_def)
    qed
  next
    case False
    with Cons.IH [of "JInt (update_id u)" w] show ?thesis
      by (simp add: x authorized_texts_def)
  qed
qed

lemma route_updates_cursor:
  "fst (route_updates p chat us (l, w)) = None \<Longrightarrow> us \<noteq> [] \<Longrightarrow>
   fst (snd (route_updates p chat us (l, w))) = JInt (update_id (snd (last us)))"
proof (induction us arbitrary: l w)
  case Nil
  then show ?case by simp
next
  case (Cons x us)
  obtain t u where x: "x = (t, u)" by (cases x)
  show ?case
  proof (cases "us = []")
    case True
    with Cons.prems show ?thesis
      by (auto simp: x split: sum.splits if_splits prod.splits)
  next
    case False
    with Cons.prems Cons.IH show ?thesis
      by (auto simp: x split: sum.splits if_splits prod.splits)
  qed
qed

lemma poll_telegram_200:
  assumes "os_nt p \<or> windows_seen now (fst (get_remote_status p w)) = Inr False"
    and "is_number (last_update_id (config b))"
    and "route_updates p (chat_id (config b)) us
           (last_update_id (config b), if os_nt p then w else get_comms_dir w) = (e, l, w2)"
  shows "poll_telegram p now (Reply 200 us) b w =
           (case e of
              None \<Rightarrow> (None, \<lparr>config = (config b)\<lparr>last_update_id := l\<rparr>,
                               config_file = (config b)\<lparr>last_update_id := l\<rparr>\<rparr>, w2)
            | Some x \<Rightarrow> if is_Exception x then (None, b, w2) else (Some x, b, w2))"
  using assms
  by (auto simp: poll_telegram_def get_remote_status_def Let_def split: prod.splits option.splits)

lemma poll_telegram_world:
  "snd (snd (poll_telegram p now (Reply 200 us) b w)) =
     (if (os_nt p \<or> windows_seen now (fst (get_remote_status p w)) = Inr False)
         \<and> is_number (last_update_id (config b))
      then snd (route_texts p (authorized_texts p (chat_id (config b)) us)
                  (if os_nt p then w else get_comms_dir w))
      else (if os_nt p then w else get_comms_dir w))"
proof (cases "(os_nt p \<or> windows_seen now (fst (get_remote_status p w)) = Inr False)
         \<and> is_number (last_update_id (config b))")
  case True
  obtain e l w2 where r: "route_updates p (chat_id (config b)) us
           (last_update_id (config b), if os_nt p then w else get_comms_dir w) = (e, l, w2)"
    by (rule prod_cases3)
  from route_updates_texts [of p "chat_id (config b)" us "last_update_id (config b)"
      "if os_nt p then w else get_comms_dir w"] r
  have "w2 = snd (route_texts p (authorized_texts p (chat_id (config b)) us)
                  (if os_nt p then w else get_comms_dir w))"
    by simp
  with True show ?thesis
    using poll_telegram_200 [OF _ _ r, of now] by (simp split: option.splits)
next
  case False
  then show ?thesis
    by (auto simp: poll_telegram_def get_remote_status_def split: prod.splits sum.splits bool.splits)
qed

lemma poll_telegram_cursor:
  assumes "os_nt p \<or> windows_seen now (fst (get_remote_status p w)) = Inr False"
    and "is_number (last_update_id (config b))"
  shows "fst (route_texts p (authorized_texts p (chat_id (config b)) us)
                (if os_nt p then w else get_comms_dir w)) = None \<Longrightarrow> us \<noteq> [] \<Longrightarrow>
         last_update_id (config_file (fst (snd (poll_telegram p now (Reply 200 us) b w))))
           = JInt (update_id (snd (last us)))"
    and "fst (route_texts p (authorized_texts p (chat_id (config b)) us)
                (if os_nt p then w else get_comms_dir w)) \<noteq> None \<Longrightarrow>
         fst (snd (poll_telegram p now (Reply 200 us) b w)) = b"
proof -
  obtain e l w2 where r: "route_updates p (chat_id (config b)) us
           (last_update_id (config b), if os_nt p then w else get_comms_dir w) = (e, l, w2)"
    by (rule prod_cases3)
  from route_updates_texts [of p "chat_id (config b)" us "last_update_id (config b)"
      "if os_nt p then w else get_comms_dir w"] r
  have e: "e = fst (route_texts p (authorized_texts p (chat_id (config b)) us)
                  (if os_nt p then w else get_comms_dir w))"
    by simp
  show "last_update_id (config_file (fst (snd (poll_telegram p now (Reply 200 us) b w))))
           = JInt (update_id (snd (last us)))"
    if "fst (route_texts p (authorized_texts p (chat_id (config b)) us)
                (if os_nt p then w else get_comms_dir w)) = None" "us \<noteq> []"
    using route_updates_cursor [of p "chat_id (config b)" us "last_update_id (config b)"
        "if os_nt p then w else get_comms_dir w"] that r e
    by (simp add: poll_telegram_200 [OF assms r])
  show "fst (snd (poll_telegram p now (Reply 200 us) b w)) = b"
    if "fst (route_texts p (authorized_texts p (chat_id (config b)) us)
                (if os_nt p then w else get_comms_dir w)) \<noteq> None"
    using that e by (auto simp: poll_telegram_200 [OF assms r])
qed

text \<open>Claim C9, as the code has it. Two polls whose updates agree on the authorized senders'
  updates leave the same state, whatever the other senders sent. When the poll takes place,
  the state is that of routing the texts of the authorized updates alone, in their order, up
  to the first whose file cannot be created. When every file is created, the saved cursor is
  the id of the last update, authorized or not; when one is not, nothing is saved.\<close>

theorem poll_ignores_unauthorized_senders:
  "(filter (\<lambda>(t, u). authorized p (chat_id (config b)) u) us1
      = filter (\<lambda>(t, u). authorized p (chat_id (config b)) u) us2 \<longrightarrow>
        snd (snd (poll_telegram p now (Reply 200 us1) b w))
          = snd (snd (poll_telegram p now (Reply 200 us2) b w)))
   \<and> ((os_nt p \<or> windows_seen now (fst (get_remote_status p w)) = Inr False)
        \<and> is_number (last_update_id (config b)) \<longrightarrow>
        snd (snd (poll_telegram p now (Reply 200 us) b w))
          = snd (route_texts p (authorized_texts p (chat_id (config b)) us)
                   (if os_nt p then w else get_comms_dir w))
        \<and> (fst (route_texts p (authorized_texts p (chat_id (config b)) us)
                   (if os_nt p then w else get_comms_dir w)) = None \<and> us \<noteq> [] \<longrightarrow>
             last_update_id (config_file (fst (snd (poll_telegram p now (Reply 200 us) b w))))
               = JInt (update_id (snd (last us))))
        \<and> (fst (route_texts p (authorized_texts p (chat_id (config b)) us)
                   (if os_nt p then w else get_comms_dir w)) \<noteq> None \<longrightarrow>
             fst (snd (poll_telegram p now (Reply 200 us) b w)) = b))"
proof -
  have 1: "snd (snd (poll_telegram p now (Reply 200 us1) b w))
          = snd (snd (poll_telegram p now (Reply 200 us2) b w))"
    if "filter (\<lambda>(t, u). authorized p (chat_id (config b)) u) us1
      = filter (\<lambda>(t, u). authorized p (chat_id (config b)) u) us2"
  proof -
    from that have "authorized_texts p (chat_id (config b)) us1 = authorized_texts p (chat_id (config b)) us2"
      by (simp add: authorized_texts_def)
    then show ?thesis by (simp add: poll_telegram_world)
  qed
  from 1 poll_telegram_cursor [of p now w b us] show ?thesis
    by (simp add: poll_telegram_world)
qed

lemma create_in_inbox_file_name:
  assumes "file_name n"
  shows "create_in_inbox p n item w = Inr (w\<lparr>inbox := write_file n item (inbox w)\<rparr>)"
proof -
  from assms have n: "n \<noteq> []" "n \<noteq> ''.''" "n \<noteq> ''..''" "CHR ''/'' \<notin> set n" "CHR 0x00 \<notin> set n"
    "utf8_length n \<le> 255"
    by (simp_all add: file_name_def)
  have s: "split_slash s = [s]" if "CHR ''/'' \<notin> set s" for s
    using that by (induction s) auto
  from n(4) have "\<not> startswith n ''/''"
    by (auto simp: startswith_def prefix_def)
  moreover have "path_parts n = [n]"
    using n(1,2) by (simp add: path_parts_def s [OF n(4)])
  ultimately show ?thesis
    using n(3,5,6) by (simp add: create_in_inbox_def)
qed

lemma file_name_status: "file_name ''wizardpanda_1001000.json''"
  by (simp add: file_name_def utf8_length_def)

lemma handle_instruction_status:
  "handle_instruction (proc_of ''wizardpanda'') 1001 ''status'' w
     = Inr ((get_telegram_inbox_dir w)\<lparr>inbox :=
              write_file ''wizardpanda_1001000.json'' (channel_item 1001 ''status'') (inbox w)\<rparr>)"
proof -
  have n: "py_str_int (msg_id 1001) = ''1001000''"
    by (simp add: msg_id_def py_int_def py_str_int_def dec_nat.simps digit_def)
  show ?thesis
    unfolding handle_instruction_def Let_def
    by (simp add: startswith_def lower_def lower_char_def n
        create_in_inbox_file_name [OF file_name_status] channel_item_def
        get_telegram_inbox_dir_def get_comms_dir_def)
qed

theorem poll_ignores_unauthorized_senders_witness:
  "windows_seen 1000 (fst (get_remote_status (proc_of ''wizardpanda'') empty_world)) = Inr False
   \<and> is_number (last_update_id (config demo_bridge))
   \<and> snd (snd (poll_telegram (proc_of ''wizardpanda'') 1000
                 (Reply 200 [(1001, demo_update 10 42 ''status''), (1002, demo_update 11 7 ''to quasar: rm'')])
                 demo_bridge empty_world))
       = snd (snd (poll_telegram (proc_of ''wizardpanda'') 1000
                 (Reply 200 [(1001, demo_update 10 42 ''status'')])
                 demo_bridge empty_world))
   \<and> inbox (snd (snd (poll_telegram (proc_of ''wizardpanda'') 1000
                 (Reply 200 [(1001, demo_update 10 42 ''status''), (1002, demo_update 11 7 ''to quasar: rm'')])
                 demo_bridge empty_world)))
       = [(''wizardpanda_1001000.json'', channel_item 1001 ''status'')]
   \<and> last_update_id (config_file (fst (snd (poll_telegram (proc_of ''wizardpanda'') 1000
                 (Reply 200 [(1001, demo_update 10 42 ''status''), (1002, demo_update 11 7 ''to quasar: rm'')])
                 demo_bridge empty_world)))) = JInt 11"
proof -
  have a1: "authorized (proc_of ''wizardpanda'') (JInt 42) (demo_update 10 42 ''status'')"
    by (simp add: authorized_def update_from_def fmt_def demo_update_def)
  have a2: "\<not> authorized (proc_of ''wizardpanda'') (JInt 42) (demo_update 11 7 ''to quasar: rm'')"
    by (simp add: authorized_def update_from_def fmt_def demo_update_def py_str_int_def
        dec_nat.simps digit_def)
  have a3: "windows_seen 1000 (fst (get_remote_status (proc_of ''wizardpanda'') empty_world)) = Inr False"
    by (simp add: get_remote_status_def)
  have a4: "chat_id (config demo_bridge) = JInt 42" "\<not> os_nt (proc_of ''wizardpanda'')"
    "is_number (last_update_id (config demo_bridge))"
    by (simp_all add: demo_bridge_def proc_of_def is_number_def)
  have a5: "update_text (demo_update 10 42 ''status'') = ''status''"
    "update_id (demo_update 11 7 ''to quasar: rm'') = 11"
    by (simp_all add: update_text_def demo_update_def)
  have a6: "authorized_texts (proc_of ''wizardpanda'') (JInt 42)
              [(1001, demo_update 10 42 ''status''), (1002, demo_update 11 7 ''to quasar: rm'')]
            = [(1001, ''status'')]"
    by (simp add: authorized_texts_def a1 a2 a5)
  note th = poll_ignores_unauthorized_senders [of "proc_of ''wizardpanda''" demo_bridge
        "[(1001, demo_update 10 42 ''status''), (1002, demo_update 11 7 ''to quasar: rm'')]"
        "[(1001, demo_update 10 42 ''status'')]" 1000 empty_world
        "[(1001, demo_update 10 42 ''status''), (1002, demo_update 11 7 ''to quasar: rm'')]"]
  have c1: "snd (snd (poll_telegram (proc_of ''wizardpanda'') 1000
                 (Reply 200 [(1001, demo_update 10 42 ''status''), (1002, demo_update 11 7 ''to quasar: rm'')])
                 demo_bridge empty_world))
       = snd (snd (poll_telegram (proc_of ''wizardpanda'') 1000
                 (Reply 200 [(1001, demo_update 10 42 ''status'')])
                 demo_bridge empty_world))"
    using th by (simp add: a1 a2 a4)
  have c2: "snd (snd (poll_telegram (proc_of ''wizardpanda'') 1000
                 (Reply 200 [(1001, demo_update 10 42 ''status''), (1002, demo_update 11 7 ''to quasar: rm'')])
                 demo_bridge empty_world))
       = (get_telegram_inbox_dir (get_comms_dir empty_world))\<lparr>inbox :=
                   [(''wizardpanda_1001000.json'', channel_item 1001 ''status'')]\<rparr>"
    using th a3 by (simp add: a4 a6 handle_instruction_status write_file_def get_comms_dir_def)
  have c3: "last_update_id (config_file (fst (snd (poll_telegram (proc_of ''wizardpanda'') 1000
                 (Reply 200 [(1001, demo_update 10 42 ''status''), (1002, demo_update 11 7 ''to quasar: rm'')])
                 demo_bridge empty_world)))) = JInt 11"
    using th a3 by (simp add: a4 a5 a6 handle_instruction_status)
  show ?thesis
    using a3 a4(3) c1 [symmetric] c3 by (simp add: c2 get_telegram_inbox_dir_def get_comms_dir_def)
qed

text \<open>Claim C9 as stated fails. The authorized update 10 names the target \<^verbatim>\<open>a/b\<close>; the inbox
  has no directory \<^verbatim>\<open>a\<close>, \<^verbatim>\<open>open\<close> raises, \<^verbatim>\<open>except Exception\<close> swallows it, and the poll
  ends there: the cursor is not advanced past the unauthorized update 11, it stays at 9, and
  the authorized update 12 is not routed.\<close>

theorem poll_keeps_cursor_after_refused_name_counterexample:
  "\<not> authorized (proc_of ''wizardpanda'') (chat_id (config demo_bridge)) (demo_update 11 7 ''spam'')
   \<and> fst (poll_telegram (proc_of ''wizardpanda'') 1000
             (Reply 200 [(1001, demo_update 10 42 ''to a/b: hi''), (1002, demo_update 11 7 ''spam''),
                         (1003, demo_update 12 42 ''status'')])
             demo_bridge empty_world) = None
   \<and> last_update_id (config_file (fst (snd (poll_telegram (proc_of ''wizardpanda'') 1000
             (Reply 200 [(1001, demo_update 10 42 ''to a/b: hi''), (1002, demo_update 11 7 ''spam''),
                         (1003, demo_update 12 42 ''status'')])
             demo_bridge empty_world)))) = JInt 9
   \<and> inbox (snd (snd (poll_telegram (proc_of ''wizardpanda'') 1000
             (Reply 200 [(1001, demo_update 10 42 ''to a/b: hi''), (1002, demo_update 11 7 ''spam''),
                         (1003, demo_update 12 42 ''status'')])
             demo_bridge empty_world))) = []"
proof -
  have a1: "authorized (proc_of ''wizardpanda'') (JInt 42) (demo_update 10 42 ''to a/b: hi'')"
    by (simp add: authorized_def update_from_def fmt_def demo_update_def)
  have a2: "\<not> authorized (proc_of ''wizardpanda'') (JInt 42) (demo_update 11 7 ''spam'')"
    by (simp add: authorized_def update_from_def fmt_def demo_update_def py_str_int_def
        dec_nat.simps digit_def)
  have a3: "windows_seen 1000 (fst (get_remote_status (proc_of ''wizardpanda'') empty_world)) = Inr False"
    by (simp add: get_remote_status_def)
  have a4: "chat_id (config demo_bridge) = JInt 42" "\<not> os_nt (proc_of ''wizardpanda'')"
    "is_number (last_update_id (config demo_bridge))"
    "last_update_id (config_file demo_bridge) = JInt 9"
    by (simp_all add: demo_bridge_def proc_of_def is_number_def)
  have a5: "update_text (demo_update 10 42 ''to a/b: hi'') = ''to a/b: hi''"
    by (simp add: update_text_def demo_update_def)
  have t: "lower ''to a/b: hi'' = ''to a/b: hi''"
    "split_colon ''to a/b: hi'' = [''to a/b'', '' hi'']"
    "replace_del ''to '' ''to a/b'' = ''a/b''"
    "strip ''a/b'' = ''a/b''" "lower ''a/b'' = ''a/b''"
    "strip '' hi'' = ''hi''" "lower ''hi'' = ''hi''"
    by (simp_all add: lower_def lower_char_def split_colon_def replace_del.simps(2) strip_def
        lstrip_def rstrip_def is_space_def)
  have n: "py_str_int (msg_id 1001) = ''1001000''"
    by (simp add: msg_id_def py_int_def py_str_int_def dec_nat.simps digit_def)
  have h: "handle_instruction (proc_of ''wizardpanda'') 1001 ''to a/b: hi'' w
             = Inl (OSError, get_telegram_inbox_dir w)" for w
    unfolding handle_instruction_def Let_def
    by (simp add: t n startswith_def create_in_inbox_def path_parts_def)
  have a7: "update_id (demo_update 10 42 ''to a/b: hi'') = 10"
    by (simp add: demo_update_def)
  have r: "route_updates (proc_of ''wizardpanda'') (JInt 42)
             [(1001, demo_update 10 42 ''to a/b: hi''), (1002, demo_update 11 7 ''spam''),
              (1003, demo_update 12 42 ''status'')]
             (JInt 9, get_comms_dir empty_world)
           = (Some OSError, JInt 10, get_telegram_inbox_dir (get_comms_dir empty_world))"
    by (simp add: a1 a5 a7 h)
  have l: "last_update_id (config demo_bridge) = JInt 9"
    by (simp add: demo_bridge_def)
  have "poll_telegram (proc_of ''wizardpanda'') 1000
             (Reply 200 [(1001, demo_update 10 42 ''to a/b: hi''), (1002, demo_update 11 7 ''spam''),
                         (1003, demo_update 12 42 ''status'')])
             demo_bridge empty_world
        = (None, demo_bridge, get_telegram_inbox_dir (get_comms_dir empty_world))"
    using poll_telegram_200 [of "proc_of ''wizardpanda''" 1000 empty_world demo_bridge
        "[(1001, demo_update 10 42 ''to a/b: hi''), (1002, demo_update 11 7 ''spam''),
          (1003, demo_update 12 42 ''status'')]"
        "Some OSError" "JInt 10" "get_telegram_inbox_dir (get_comms_dir empty_world)"]
      r a3 a4 l
    by (simp add: is_Exception_def)
  then show ?thesis
    using a2 a4 by (simp add: get_telegram_inbox_dir_def get_comms_dir_def)
qed

subsection \<open>Channel inbox: the two passes\<close>

lemma inbox_get_telegram_inbox_dir [simp]:
  "inbox (get_telegram_inbox_dir w) = inbox w" "presence (get_telegram_inbox_dir w) = presence w"
  "mailbox (get_telegram_inbox_dir w) = mailbox w" "events (get_telegram_inbox_dir w) = events w"
  "outbox (get_telegram_inbox_dir w) = outbox w"
  by (simp_all add: get_telegram_inbox_dir_def get_comms_dir_def)

lemma fields_get_comms_dir [simp]:
  "inbox (get_comms_dir w) = inbox w" "presence (get_comms_dir w) = presence w"
  "mailbox (get_comms_dir w) = mailbox w" "events (get_comms_dir w) = events w"
  "outbox (get_comms_dir w) = outbox w"
  by (simp_all add: get_comms_dir_def)

lemma read_direct_parsable:
  "map_of (inbox w) f = Some tf \<Longrightarrow> body tf = Some j \<Longrightarrow>
   read_direct f (ms, w) = (ms @ [j], w\<lparr>inbox := AList.delete f (inbox w)\<rparr>)"
  by (simp add: read_direct_def unlink_def)

lemma read_direct_unparsable:
  "\<not> tparsable (inbox w) f \<Longrightarrow> read_direct f (ms, w) = (ms, w)"
  by (auto simp: read_direct_def tparsable_def split: option.splits)

lemma tparsable_delete: "tparsable (AList.delete n d) k = (k \<noteq> n \<and> tparsable d k)"
  by (auto simp: tparsable_def AList.delete_conv')

lemma filter_delete_step:
  assumes "Q n"
    and "\<And>k. k \<noteq> n \<Longrightarrow> Q' k = Q k"
  shows "filter (\<lambda>(k, c). \<not> (k \<in> set ns \<and> Q' k)) (AList.delete n d)
         = filter (\<lambda>(k, c). \<not> (k \<in> set (n # ns) \<and> Q k)) d"
proof -
  have "filter (\<lambda>(k, c). \<not> (k \<in> set ns \<and> Q' k)) (AList.delete n d)
        = filter (\<lambda>(k, c). \<not> (k \<in> set ns \<and> Q' k)) (filter (\<lambda>(k, c). n \<noteq> k) d)"
    by (simp add: AList.delete_eq)
  also have "\<dots> = filter (\<lambda>(k, c). n \<noteq> k \<and> \<not> (k \<in> set ns \<and> Q' k)) d"
    by (simp add: case_prod_unfold)
  also have "\<dots> = filter (\<lambda>(k, c). \<not> (k \<in> set (n # ns) \<and> Q k)) d"
  proof (rule filter_cong [OF refl])
    fix x assume "x \<in> set d"
    obtain k c where x: "x = (k, c)" by (cases x)
    show "(case x of (k, c) \<Rightarrow> n \<noteq> k \<and> \<not> (k \<in> set ns \<and> Q' k))
          = (case x of (k, c) \<Rightarrow> \<not> (k \<in> set (n # ns) \<and> Q k))"
      using assms(1) assms(2) [of k] by (cases "k = n") (auto simp: x)
  qed
  finally show ?thesis .
qed

lemma filter_keep_step:
  assumes "\<not> Q n"
  shows "filter (\<lambda>(k, c). \<not> (k \<in> set ns \<and> Q k)) d
         = filter (\<lambda>(k, c). \<not> (k \<in> set (n # ns) \<and> Q k)) d"
  using assms by (auto intro!: filter_cong)

lemma fold_read_direct_inbox:
  "inbox (snd (fold read_direct ns (ms, w))) =
     filter (\<lambda>(k, c). \<not> (k \<in> set ns \<and> tparsable (inbox w) k)) (inbox w)"
proof (induction ns arbitrary: ms w)
  case Nil
  then show ?case by simp
next
  case (Cons n ns)
  show ?case
  proof (cases "tparsable (inbox w) n")
    case True
    then obtain tf j where j: "map_of (inbox w) n = Some tf" "body tf = Some j"
      by (auto simp: tparsable_def)
    show ?thesis
      using filter_delete_step [of "tparsable (inbox w)" n "tparsable (AList.delete n (inbox w))" ns "inbox w"] True
      by (simp add: read_direct_parsable [OF j] Cons.IH tparsable_delete)
  next
    case False
    show ?thesis
      using filter_keep_step [of "tparsable (inbox w)" n ns "inbox w", OF False]
      by (simp add: read_direct_unparsable [OF False] Cons.IH)
  qed
qed

lemma bodies_simps [simp]:
  "bodies d [] = []"
  "bodies d (n # ns) = (case map_of d n of
        Some tf \<Rightarrow> (case body tf of Some j \<Rightarrow> [j] | None \<Rightarrow> []) | None \<Rightarrow> []) @ bodies d ns"
  by (simp_all add: bodies_def)

lemma bodies_delete: "n \<notin> set ns \<Longrightarrow> bodies (AList.delete n d) ns = bodies d ns"
  by (induction ns) auto

lemma fold_read_direct_msgs:
  "distinct ns \<Longrightarrow> fst (fold read_direct ns (ms, w)) = ms @ bodies (inbox w) ns"
proof (induction ns arbitrary: ms w)
  case Nil
  then show ?case by simp
next
  case (Cons n ns)
  show ?case
  proof (cases "tparsable (inbox w) n")
    case True
    then obtain tf j where j: "map_of (inbox w) n = Some tf" "body tf = Some j"
      by (auto simp: tparsable_def)
    show ?thesis
      using Cons.prems by (simp add: read_direct_parsable [OF j] Cons.IH j bodies_delete)
  next
    case False
    then have "(case map_of (inbox w) n of
        Some tf \<Rightarrow> (case body tf of Some j \<Rightarrow> [j] | None \<Rightarrow> []) | None \<Rightarrow> []) = []"
      by (auto simp: tparsable_def split: option.splits)
    then show ?thesis
      using Cons.prems by (simp add: read_direct_unparsable [OF False] Cons.IH)
  qed
qed

lemma fold_read_direct_frame:
  "presence (snd (fold read_direct ns s)) = presence (snd s)
   \<and> mailbox (snd (fold read_direct ns s)) = mailbox (snd s)
   \<and> outbox (snd (fold read_direct ns s)) = outbox (snd s)
   \<and> events (snd (fold read_direct ns s)) = events (snd s)"
  by (induction ns arbitrary: s) (auto simp: read_direct_def split: option.splits prod.splits)

lemma bodies_filter:
  assumes "distinct (map fst d)" "set xs \<subseteq> set d"
  shows "bodies d (filter P (map fst xs))
         = map (\<lambda>(n, tf). the (body tf)) (filter (\<lambda>(n, tf). P n \<and> body tf \<noteq> None) xs)"
  using assms(2)
proof (induction xs)
  case Nil
  then show ?case by simp
next
  case (Cons x xs)
  obtain n tf where x: "x = (n, tf)" by (cases x)
  with Cons.prems assms(1) have "map_of d n = Some tf" by simp
  with Cons x show ?case by (cases "body tf") auto
qed

lemma tremaining_filter:
  assumes "distinct (map fst d)"
  shows "filter (\<lambda>(k, c). \<not> (k \<in> set (filter P (map fst d)) \<and> tparsable d k)) d
         = filter (\<lambda>(n, tf). \<not> (P n \<and> body tf \<noteq> None)) d"
proof (rule filter_cong[OF refl])
  fix x assume "x \<in> set d"
  moreover obtain n c where x: "x = (n, c)" by (cases x)
  ultimately have "map_of d n = Some c" using assms by simp
  moreover have "n \<in> fst ` set d" using x \<open>x \<in> set d\<close> by force
  ultimately show "(case x of (k, c) \<Rightarrow> \<not> (k \<in> set (filter P (map fst d)) \<and> tparsable d k))
             = (case x of (n, tf) \<Rightarrow> \<not> (P n \<and> body tf \<noteq> None))"
    using x by (cases "body c") (simp_all add: tparsable_def)
qed

lemma priority_pass_result:
  assumes "distinct (names (inbox w))"
  shows "fst (priority_pass p w) = map (\<lambda>(n, tf). the (body tf))
           (filter (\<lambda>(n, tf). glob_match (agent_identity p @ ''_'') n \<and> body tf \<noteq> None) (inbox w))"
    and "inbox (snd (priority_pass p w))
           = filter (\<lambda>(n, tf). \<not> (glob_match (agent_identity p @ ''_'') n \<and> body tf \<noteq> None)) (inbox w)"
    and "presence (snd (priority_pass p w)) = presence w"
proof -
  let ?P = "glob_match (agent_identity p @ ''_'')"
  let ?ns = "filter ?P (map fst (inbox w))"
  have d: "distinct (map fst (inbox w))" using assms by (simp add: names_def)
  then have dn: "distinct ?ns" by simp
  have run: "priority_pass p w = fold read_direct ?ns ([], get_telegram_inbox_dir w)"
    by (simp add: priority_pass_def glob_def names_def)
  show "fst (priority_pass p w) = map (\<lambda>(n, tf). the (body tf))
           (filter (\<lambda>(n, tf). ?P n \<and> body tf \<noteq> None) (inbox w))"
    using fold_read_direct_msgs [OF dn] bodies_filter [OF d subset_refl, of ?P] by (simp add: run)
  show "inbox (snd (priority_pass p w)) = filter (\<lambda>(n, tf). \<not> (?P n \<and> body tf \<noteq> None)) (inbox w)"
    using fold_read_direct_inbox [of ?ns "[]" "get_telegram_inbox_dir w"] tremaining_filter [OF d, of ?P]
    by (simp add: run)
  show "presence (snd (priority_pass p w)) = presence w"
    using fold_read_direct_frame [of ?ns "([], get_telegram_inbox_dir w)"] by (simp add: run)
qed

lemma is_primary_fst_cong:
  "presence w' = presence w \<Longrightarrow> fst (is_primary p now w') = fst (is_primary p now w)"
  by (simp add: is_primary_def get_remote_status_def split: sum.splits)

lemma is_primary_snd [simp]:
  "inbox (snd (is_primary p now w)) = inbox w" "presence (snd (is_primary p now w)) = presence w"
  "events (snd (is_primary p now w)) = events w"
  by (simp_all add: is_primary_def get_remote_status_def split: sum.splits)

lemma claimable_cong:
  "presence w' = presence w \<Longrightarrow> inbox w' = inbox w \<Longrightarrow> claimable p now w' k = claimable p now w k"
  using is_primary_fst_cong [of w' w p now] by (simp add: claimable_def)

lemma claimable_delete:
  "presence w' = presence w \<Longrightarrow> inbox w' = AList.delete f (inbox w) \<Longrightarrow>
   claimable p now w' k = (k \<noteq> f \<and> claimable p now w k)"
  using is_primary_fst_cong [of w' w p now] by (auto simp: claimable_def AList.delete_conv')

lemma read_fallback_claimed:
  assumes "claimable p now w f"
  shows "inbox (snd (read_fallback p now f (ms, w))) = AList.delete f (inbox w)"
    and "presence (snd (read_fallback p now f (ms, w))) = presence w"
    and "fst (read_fallback p now f (ms, w)) = ms @ bodies (inbox w) [f]"
proof -
  from assms obtain tf j where tf: "map_of (inbox w) f = Some tf" "body tf = Some j"
    "now - mtime tf > 60" "fst (is_primary p now w) = Inr True"
    by (auto simp: claimable_def)
  obtain r w1 where ip: "is_primary p now w = (r, w1)" by (cases "is_primary p now w")
  with tf(4) have r: "r = Inr True" by simp
  have w1: "inbox w1 = inbox w" "presence w1 = presence w"
    using is_primary_snd [of p now w] by (simp_all add: ip)
  have rf: "read_fallback p now f (ms, w)
        = (ms @ [j], w1\<lparr>inbox := unlink f (inbox w1), events := events w1 @ [Fallback_handled f]\<rparr>)"
    using tf by (simp add: read_fallback_def ip r)
  show "inbox (snd (read_fallback p now f (ms, w))) = AList.delete f (inbox w)"
    by (simp add: rf unlink_def w1)
  show "presence (snd (read_fallback p now f (ms, w))) = presence w"
    by (simp add: rf w1)
  show "fst (read_fallback p now f (ms, w)) = ms @ bodies (inbox w) [f]"
    by (simp add: rf tf)
qed

lemma read_fallback_left:
  assumes "\<not> claimable p now w f"
  shows "inbox (snd (read_fallback p now f (ms, w))) = inbox w"
    and "presence (snd (read_fallback p now f (ms, w))) = presence w"
    and "fst (read_fallback p now f (ms, w)) = ms"
proof -
  obtain r w1 where ip: "is_primary p now w = (r, w1)" by (cases "is_primary p now w")
  have w1: "inbox w1 = inbox w" "presence w1 = presence w"
    using is_primary_snd [of p now w] by (simp_all add: ip)
  have "read_fallback p now f (ms, w) = (ms, w) \<or> read_fallback p now f (ms, w) = (ms, w1)"
  proof (cases "map_of (inbox w) f")
    case None
    then show ?thesis by (simp add: read_fallback_def)
  next
    case (Some tf)
    show ?thesis
    proof (cases "now - mtime tf > 60")
      case False
      with Some show ?thesis by (simp add: read_fallback_def)
    next
      case True
      show ?thesis
      proof (cases "r = Inr True")
        case False
        with Some True show ?thesis
          by (cases r) (auto simp: read_fallback_def ip split: bool.splits)
      next
        case r: True
        with assms Some True ip have "body tf = None"
          by (cases "body tf") (auto simp: claimable_def)
        with Some True r show ?thesis by (simp add: read_fallback_def ip)
      qed
    qed
  qed
  then show "inbox (snd (read_fallback p now f (ms, w))) = inbox w"
    and "presence (snd (read_fallback p now f (ms, w))) = presence w"
    and "fst (read_fallback p now f (ms, w)) = ms"
    using w1 by auto
qed

lemma fold_read_fallback_presence:
  "presence (snd (fold (read_fallback p now) ns (ms, w))) = presence w"
proof (induction ns arbitrary: ms w)
  case Nil
  then show ?case by simp
next
  case (Cons n ns)
  obtain ms' w' where s: "read_fallback p now n (ms, w) = (ms', w')"
    by (cases "read_fallback p now n (ms, w)")
  have "presence w' = presence w"
    using read_fallback_claimed(2) [of p now w n ms] read_fallback_left(2) [of p now w n ms] s
    by (cases "claimable p now w n") simp_all
  then show ?case by (simp add: s Cons.IH)
qed

lemma fold_read_fallback_inbox:
  "inbox (snd (fold (read_fallback p now) ns (ms, w))) =
     filter (\<lambda>(k, c). \<not> (k \<in> set ns \<and> claimable p now w k)) (inbox w)"
proof (induction ns arbitrary: ms w)
  case Nil
  then show ?case by simp
next
  case (Cons n ns)
  obtain ms' w' where s: "read_fallback p now n (ms, w) = (ms', w')"
    by (cases "read_fallback p now n (ms, w)")
  show ?case
  proof (cases "claimable p now w n")
    case True
    have w': "inbox w' = AList.delete n (inbox w)" "presence w' = presence w"
      using read_fallback_claimed(1,2) [OF True, of ms] s by simp_all
    show ?thesis
      using filter_delete_step [of "claimable p now w" n "claimable p now w'" ns "inbox w"] True
        claimable_delete [OF w'(2,1), of p now]
      by (simp add: s Cons.IH w')
  next
    case False
    have w': "inbox w' = inbox w" "presence w' = presence w"
      using read_fallback_left(1,2) [OF False, of ms] s by simp_all
    have c: "claimable p now w' = claimable p now w"
      using claimable_cong [OF w'(2,1)] by (intro ext)
    show ?thesis
      using filter_keep_step [of "claimable p now w" n ns "inbox w", OF False]
      by (simp add: s Cons.IH w' c)
  qed
qed

lemma fold_read_fallback_msgs:
  "distinct ns \<Longrightarrow>
   fst (fold (read_fallback p now) ns (ms, w)) = ms @ bodies (inbox w) (filter (claimable p now w) ns)"
proof (induction ns arbitrary: ms w)
  case Nil
  then show ?case by simp
next
  case (Cons n ns)
  obtain ms' w' where s: "read_fallback p now n (ms, w) = (ms', w')"
    by (cases "read_fallback p now n (ms, w)")
  from Cons.prems have n: "n \<notin> set ns" and dn: "distinct ns" by simp_all
  show ?case
  proof (cases "claimable p now w n")
    case True
    have w': "inbox w' = AList.delete n (inbox w)" "presence w' = presence w"
      "ms' = ms @ bodies (inbox w) [n]"
      using read_fallback_claimed [OF True, of ms] s by simp_all
    have "filter (claimable p now w') ns = filter (claimable p now w) ns"
      using n claimable_delete [OF w'(2,1), of p now] by (intro filter_cong) auto
    moreover have "bodies (AList.delete n (inbox w)) (filter (claimable p now w) ns)
                   = bodies (inbox w) (filter (claimable p now w) ns)"
      using n by (intro bodies_delete) simp
    ultimately show ?thesis
      using True by (simp add: s Cons.IH [OF dn] w')
  next
    case False
    have w': "inbox w' = inbox w" "presence w' = presence w" "ms' = ms"
      using read_fallback_left [OF False, of ms] s by simp_all
    have c: "claimable p now w' = claimable p now w"
      using claimable_cong [OF w'(2,1)] by (intro ext)
    show ?thesis
      using False by (simp add: s Cons.IH [OF dn] w' c)
  qed
qed

lemma quasar_active_sticky: "quasar_active now rs True = Inr b \<Longrightarrow> b"
  by (induction rs) (auto split: if_splits sum.splits option.splits)

lemma quasar_active_stale:
  "quasar_active now rs acc = Inr False \<Longrightarrow> (h, d) \<in> set rs \<Longrightarrow> lower h = ''quasar'' \<Longrightarrow>
   \<exists>ts t. dict_get d ''timestamp'' (JInt 0) = Inr ts \<and> as_number ts = Some t \<and> now - t \<ge> 120"
proof (induction rs arbitrary: acc)
  case Nil
  then show ?case by simp
next
  case (Cons r rs)
  obtain h' d' where r: "r = (h', d')" by (cases r)
  show ?case
  proof (cases "lower h' = ''quasar''")
    case True
    with Cons.prems(1) r obtain ts t where ts: "dict_get d' ''timestamp'' (JInt 0) = Inr ts"
      "as_number ts = Some t"
      "quasar_active now rs (if now - t < 120 then True else acc) = Inr False"
      by (auto split: sum.splits option.splits)
    have stale: "\<not> now - t < 120"
      using ts(3) quasar_active_sticky [of now rs False] by (auto split: if_splits)
    show ?thesis
    proof (cases "(h, d) = r")
      case True
      with r ts stale show ?thesis by auto
    next
      case False
      with Cons.prems(2) have "(h, d) \<in> set rs" by simp
      from Cons.IH [OF ts(3) this Cons.prems(3)] show ?thesis .
    qed
  next
    case False
    with Cons.prems r have "quasar_active now rs acc = Inr False" "(h, d) \<in> set rs"
      by auto
    from Cons.IH [OF this Cons.prems(3)] show ?thesis .
  qed
qed

lemma remote_status_member:
  "(h, Some d) \<in> set (presence w) \<Longrightarrow> h \<noteq> get_hostname p \<Longrightarrow> (h, d) \<in> set (fst (get_remote_status p w))"
  by (force simp: get_remote_status_def)

lemma bodies_member:
  "n \<in> set ns \<Longrightarrow> map_of d n = Some tf \<Longrightarrow> body tf = Some j \<Longrightarrow> j \<in> set (bodies d ns)"
  by (induction ns) auto

lemma listen_for_telegram_messages_fallback:
  assumes "distinct (names (inbox w))"
    and "lower (agent_identity p) \<noteq> ''antigravity''"
    and "priority_pass p w = (m1, w1)"
  shows "inbox (snd (listen_for_telegram_messages p now w))
           = filter (\<lambda>(k, c). \<not> (glob_match ''Antigravity_'' k \<and> claimable p now w1 k)) (inbox w1)"
    and "fst (listen_for_telegram_messages p now w)
           = m1 @ bodies (inbox w1) (filter (claimable p now w1) (glob ''Antigravity_'' (inbox w1)))"
proof -
  have d: "distinct (map fst (inbox w))" using assms(1) by (simp add: names_def)
  have w1: "inbox w1 = filter (\<lambda>(n, tf). \<not> (glob_match (agent_identity p @ ''_'') n \<and> body tf \<noteq> None)) (inbox w)"
    using priority_pass_result(2) [OF assms(1), of p] assms(3) by simp
  have d1: "distinct (map fst (inbox w1))" unfolding w1 using d by (rule distinct_map_filter)
  let ?ns = "glob ''Antigravity_'' (inbox w1)"
  have dn: "distinct ?ns" using d1 by (simp add: glob_def names_def)
  have run: "listen_for_telegram_messages p now w = fold (read_fallback p now) ?ns (m1, w1)"
    using assms(2,3) by (simp add: listen_for_telegram_messages_def)
  have "inbox (snd (listen_for_telegram_messages p now w))
        = filter (\<lambda>(k, c). \<not> (k \<in> set ?ns \<and> claimable p now w1 k)) (inbox w1)"
    by (simp add: run fold_read_fallback_inbox)
  also have "\<dots> = filter (\<lambda>(k, c). \<not> (glob_match ''Antigravity_'' k \<and> claimable p now w1 k)) (inbox w1)"
    by (rule filter_cong [OF refl]) (force simp: glob_def names_def)
  finally show "inbox (snd (listen_for_telegram_messages p now w))
           = filter (\<lambda>(k, c). \<not> (glob_match ''Antigravity_'' k \<and> claimable p now w1 k)) (inbox w1)" .
  show "fst (listen_for_telegram_messages p now w)
           = m1 @ bodies (inbox w1) (filter (claimable p now w1) ?ns)"
    by (simp add: run fold_read_fallback_msgs [OF dn])
qed

text \<open>Claim C1, as the code has it. A host that is not the primary, polling the channel
  inbox, takes a shared-slot item that is not addressed to its own identity only when the
  item is older than 60 seconds and every visible record of the primary has a numeric
  timestamp at least 120 seconds old (none at all included); the item is then among the
  messages returned. While a record of the primary is younger than 60 seconds, the item
  stays, whatever its age.\<close>

theorem fallback_claims_only_when_primary_stale:
  assumes "distinct (names (inbox w))"
    and "literal_id (agent_identity p)"
    and "lower (get_hostname p) \<noteq> ''quasar''"
    and "(f, tf) \<in> set (inbox w)"
    and "glob_match ''Antigravity_'' f"
    and "\<not> glob_match (agent_identity p @ ''_'') f"
    and "listen_for_telegram_messages p now w = (msgs, w')"
  shows "(f \<notin> set (names (inbox w')) \<longrightarrow>
            now - mtime tf > 60
            \<and> (\<forall>h d. (h, Some d) \<in> set (presence w) \<and> lower h = ''quasar'' \<longrightarrow>
                 (\<exists>ts t. dict_get d ''timestamp'' (JInt 0) = Inr ts \<and> as_number ts = Some t
                    \<and> now - t \<ge> 120))
            \<and> (\<exists>j. body tf = Some j \<and> j \<in> set msgs))
       \<and> ((\<exists>h d ts t. (h, Some d) \<in> set (presence w) \<and> lower h = ''quasar''
              \<and> dict_get d ''timestamp'' (JInt 0) = Inr ts \<and> as_number ts = Some t \<and> now - t < 60)
            \<longrightarrow> f \<in> set (names (inbox w')))"
proof -
  obtain m1 w1 where pp: "priority_pass p w = (m1, w1)" by (cases "priority_pass p w")
  have d: "distinct (map fst (inbox w))" using assms(1) by (simp add: names_def)
  have w1: "inbox w1 = filter (\<lambda>(n, tf). \<not> (glob_match (agent_identity p @ ''_'') n \<and> body tf \<noteq> None)) (inbox w)"
    and p1: "presence w1 = presence w"
    using priority_pass_result(2,3) [OF assms(1), of p] pp by simp_all
  have d1: "distinct (map fst (inbox w1))" unfolding w1 using d by (rule distinct_map_filter)
  have in1: "(f, tf) \<in> set (inbox w1)" using assms(4,6) by (simp add: w1)
  then have mo1: "map_of (inbox w1) f = Some tf" using d1 by simp
  have claimed: "now - mtime tf > 60
            \<and> (\<forall>h d. (h, Some d) \<in> set (presence w) \<and> lower h = ''quasar'' \<longrightarrow>
                 (\<exists>ts t. dict_get d ''timestamp'' (JInt 0) = Inr ts \<and> as_number ts = Some t
                    \<and> now - t \<ge> 120))
            \<and> (\<exists>j. body tf = Some j \<and> j \<in> set msgs)"
    if gone: "f \<notin> set (names (inbox w'))"
  proof -
    have na: "lower (agent_identity p) \<noteq> ''antigravity''"
    proof
      assume "lower (agent_identity p) = ''antigravity''"
      then have "w' = w1" using assms(7) pp by (simp add: listen_for_telegram_messages_def)
      with in1 gone show False by (force simp: names_def)
    qed
    have i': "inbox w' = filter (\<lambda>(k, c). \<not> (glob_match ''Antigravity_'' k \<and> claimable p now w1 k)) (inbox w1)"
      and m': "msgs = m1 @ bodies (inbox w1) (filter (claimable p now w1) (glob ''Antigravity_'' (inbox w1)))"
      using listen_for_telegram_messages_fallback [OF assms(1) na pp, of now] assms(7) by simp_all
    have c: "claimable p now w1 f"
    proof (rule ccontr)
      assume "\<not> claimable p now w1 f"
      with in1 have "(f, tf) \<in> set (inbox w')" by (simp add: i')
      with gone show False by (force simp: names_def)
    qed
    with mo1 obtain j where j: "body tf = Some j" and age: "now - mtime tf > 60"
      and prim: "fst (is_primary p now w1) = Inr True"
      by (auto simp: claimable_def)
    from prim assms(3) have qa: "quasar_active now (fst (get_remote_status p w1)) False = Inr False"
      by (auto simp: is_primary_def split: prod.splits sum.splits)
    have stale: "\<exists>ts t. dict_get d ''timestamp'' (JInt 0) = Inr ts \<and> as_number ts = Some t \<and> now - t \<ge> 120"
      if "(h, Some d) \<in> set (presence w)" "lower h = ''quasar''" for h d
    proof -
      from that assms(3) have "h \<noteq> get_hostname p" by auto
      with that(1) p1 have "(h, d) \<in> set (fst (get_remote_status p w1))"
        by (intro remote_status_member) simp_all
      from quasar_active_stale [OF qa this that(2)] show ?thesis .
    qed
    have "f \<in> set (glob ''Antigravity_'' (inbox w1))"
      using in1 assms(5) by (force simp: glob_def names_def)
    with c have "f \<in> set (filter (claimable p now w1) (glob ''Antigravity_'' (inbox w1)))" by simp
    from bodies_member [OF this mo1 j] have "j \<in> set msgs" by (simp add: m')
    with j age stale show ?thesis by blast
  qed
  have active: "f \<in> set (names (inbox w'))"
    if "\<exists>h d ts t. (h, Some d) \<in> set (presence w) \<and> lower h = ''quasar''
              \<and> dict_get d ''timestamp'' (JInt 0) = Inr ts \<and> as_number ts = Some t \<and> now - t < 60"
  proof (rule ccontr)
    assume gone: "f \<notin> set (names (inbox w'))"
    from that obtain h d ts t where h: "(h, Some d) \<in> set (presence w)" "lower h = ''quasar''"
      "dict_get d ''timestamp'' (JInt 0) = Inr ts" "as_number ts = Some t" "now - t < 60"
      by blast
    from claimed [OF gone] h(1,2) obtain ts' t' where
      "dict_get d ''timestamp'' (JInt 0) = Inr ts'" "as_number ts' = Some t'" "now - t' \<ge> 120"
      by blast
    with h(3,4,5) show False by simp
  qed
  from claimed active show ?thesis by blast
qed

theorem fallback_claims_only_when_primary_stale_witness:
  "distinct (names (inbox (demo_slot 700)))
   \<and> literal_id (agent_identity (proc_of ''wizardpanda''))
   \<and> lower (get_hostname (proc_of ''wizardpanda'')) \<noteq> ''quasar''
   \<and> (''Antigravity_1.json'', \<lparr>mtime = 900, body = Some (JObj [(''text'', JStr ''status'')])\<rparr>)
       \<in> set (inbox (demo_slot 700))
   \<and> glob_match ''Antigravity_'' ''Antigravity_1.json''
   \<and> \<not> glob_match (agent_identity (proc_of ''wizardpanda'') @ ''_'') ''Antigravity_1.json''
   \<and> ''Antigravity_1.json''
       \<notin> set (names (inbox (snd (listen_for_telegram_messages (proc_of ''wizardpanda'') 1000 (demo_slot 700)))))
   \<and> JObj [(''text'', JStr ''status'')]
       \<in> set (fst (listen_for_telegram_messages (proc_of ''wizardpanda'') 1000 (demo_slot 700)))
   \<and> ''Antigravity_1.json''
       \<in> set (names (inbox (snd (listen_for_telegram_messages (proc_of ''wizardpanda'') 1000 (demo_slot 950)))))"
proof -
  have h: "distinct (names (inbox (demo_slot q)))"
    "literal_id (agent_identity (proc_of ''wizardpanda''))"
    "lower (get_hostname (proc_of ''wizardpanda'')) \<noteq> ''quasar''"
    "(''Antigravity_1.json'', \<lparr>mtime = 900, body = Some (JObj [(''text'', JStr ''status'')])\<rparr>)
       \<in> set (inbox (demo_slot q))"
    "glob_match ''Antigravity_'' ''Antigravity_1.json''"
    "\<not> glob_match (agent_identity (proc_of ''wizardpanda'') @ ''_'') ''Antigravity_1.json''" for q
    by (simp_all add: demo_slot_def names_def literal_id_def agent_identity_def proc_of_def
        get_hostname_def lower_def lower_char_def glob_match_literal startswith_def endswith_def)
  have pres: "(''quasar'', Some (JObj [(''hostname'', JStr ''quasar''), (''timestamp'', JNum 950)]))
        \<in> set (presence (demo_slot 950))"
    "lower ''quasar'' = ''quasar''"
    "dict_get (JObj [(''hostname'', JStr ''quasar''), (''timestamp'', JNum 950)]) ''timestamp'' (JInt 0) = Inr (JNum 950)"
    by (simp_all add: demo_slot_def lower_def lower_char_def)
  have ex: "\<exists>h d ts t. (h, Some d) \<in> set (presence (demo_slot 950)) \<and> lower h = ''quasar''
              \<and> dict_get d ''timestamp'' (JInt 0) = Inr ts \<and> as_number ts = Some t \<and> (1000::real) - t < 60"
    using pres by (intro exI [of _ "''quasar''"] exI [of _ "JObj [(''hostname'', JStr ''quasar''), (''timestamp'', JNum 950)]"]
        exI [of _ "JNum 950"] exI [of _ "950"]) simp
  have gone: "inbox (snd (listen_for_telegram_messages (proc_of ''wizardpanda'') 1000 (demo_slot 700))) = []"
    by (simp add: listen_for_telegram_messages_def priority_pass_def glob_def names_def glob_match_literal
      literal_id_def startswith_def endswith_def agent_identity_def get_hostname_def proc_of_def demo_slot_def
      empty_world_def get_telegram_inbox_dir_def get_comms_dir_def read_fallback_def is_primary_def
      get_remote_status_def lower_def lower_char_def unlink_def)
  show ?thesis
    using fallback_claims_only_when_primary_stale [of "demo_slot 700" "proc_of ''wizardpanda''"
        "''Antigravity_1.json''" "\<lparr>mtime = 900, body = Some (JObj [(''text'', JStr ''status'')])\<rparr>" 1000
        "fst (listen_for_telegram_messages (proc_of ''wizardpanda'') 1000 (demo_slot 700))"
        "snd (listen_for_telegram_messages (proc_of ''wizardpanda'') 1000 (demo_slot 700))"]
      fallback_claims_only_when_primary_stale [of "demo_slot 950" "proc_of ''wizardpanda''"
        "''Antigravity_1.json''" "\<lparr>mtime = 900, body = Some (JObj [(''text'', JStr ''status'')])\<rparr>" 1000
        "fst (listen_for_telegram_messages (proc_of ''wizardpanda'') 1000 (demo_slot 950))"
        "snd (listen_for_telegram_messages (proc_of ''wizardpanda'') 1000 (demo_slot 950))"]
      ex h gone
    by (simp add: names_def)
qed

text \<open>Claim C1 as stated fails at the boundary: the primary's record is exactly 120 seconds
  old, which is not more than 120, and the fallback host claims the item.\<close>

theorem fallback_claims_at_120_counterexample:
  "lower (get_hostname (proc_of ''wizardpanda'')) \<noteq> ''quasar''
   \<and> presence (demo_slot 880) = [(''quasar'', Some (JObj [(''hostname'', JStr ''quasar''), (''timestamp'', JNum 880)]))]
   \<and> \<not> ((1000 :: real) - 880 > 120)
   \<and> fst (listen_for_telegram_messages (proc_of ''wizardpanda'') 1000 (demo_slot 880))
       = [JObj [(''text'', JStr ''status'')]]
   \<and> inbox (snd (listen_for_telegram_messages (proc_of ''wizardpanda'') 1000 (demo_slot 880))) = []"
  by (simp add: listen_for_telegram_messages_def priority_pass_def glob_def names_def glob_match_literal
      literal_id_def startswith_def endswith_def agent_identity_def get_hostname_def proc_of_def demo_slot_def
      empty_world_def get_telegram_inbox_dir_def get_comms_dir_def read_fallback_def is_primary_def
      get_remote_status_def lower_def lower_char_def unlink_def)

subsection \<open>Explicit-prefix routing\<close>

lemma lower_append: "lower (a @ b) = lower a @ lower b"
  by (simp add: lower_def)

lemma lower_to: "lower ''to '' = ''to ''"
  by (simp add: lower_def lower_char_def)

lemma is_space_blank: "is_space CHR '' ''"
  by (simp add: is_space_def)

lemma dropWhile_none: "\<forall>x \<in> set s. \<not> P x \<Longrightarrow> dropWhile P s = s"
  by (cases s) auto

lemma strip_plain: "\<forall>c \<in> set s. \<not> is_space c \<Longrightarrow> strip s = s"
  by (simp add: strip_def lstrip_def rstrip_def dropWhile_none)

lemma replace_del_no_space: "CHR '' '' \<notin> set s \<Longrightarrow> replace_del ''to '' s = s"
proof (induction s)
  case Nil
  then show ?case by simp
next
  case (Cons c cs)
  have "\<not> prefix ''to '' (c # cs)"
  proof
    assume "prefix ''to '' (c # cs)"
    then have "set ''to '' \<subseteq> set (c # cs)" by (rule set_mono_prefix)
    with Cons.prems show False by auto
  qed
  with Cons show ?case by (auto simp: replace_del.simps(2))
qed

lemma replace_del_to_prefix: "replace_del ''to '' (''to '' @ T) = replace_del ''to '' T"
  by (simp add: replace_del.simps(2) [of _ "CHR ''t''"])

lemma takeWhile_until: "x \<notin> set a \<Longrightarrow> takeWhile (\<lambda>c. c \<noteq> x) (a @ x # rest) = a"
  by (induction a) auto

lemma dropWhile_until: "x \<notin> set a \<Longrightarrow> dropWhile (\<lambda>c. c \<noteq> x) (a @ x # rest) = x # rest"
  by (induction a) auto

lemma split_colon_first:
  "CHR '':'' \<notin> set a \<Longrightarrow> split_colon (a @ CHR '':'' # rest) = [a, rest]"
  by (simp add: split_colon_def takeWhile_until dropWhile_until)

lemma handle_instruction_to:
  assumes "plain_target T"
    and "file_name (T @ ''_'' @ py_str_int (msg_id now) @ ''.json'')"
    and "\<not> startswith (lower (strip rest)) ''to antigravity''"
    and "\<not> startswith (lower (strip rest)) ''to assistant''"
  shows "handle_instruction p now (''to '' @ T @ '':'' @ rest) w =
           Inr ((get_telegram_inbox_dir w)\<lparr>inbox :=
              write_file (T @ ''_'' @ py_str_int (msg_id now) @ ''.json'')
                (channel_item now (strip rest)) (inbox w)\<rparr>)"
proof -
  from assms(1) have T: "lower T = T" "\<forall>c \<in> set T. \<not> is_space c" "CHR '':'' \<notin> set T"
    by (auto simp: plain_target_def list_all_iff)
  from T(2) is_space_blank have "CHR '' '' \<notin> set T" by auto
  then have "replace_del ''to '' T = T" by (rule replace_del_no_space)
  then have "replace_del ''to '' (''to '' @ T) = T"
    by (simp only: replace_del_to_prefix)
  then have r: "replace_del ''to '' (CHR ''t'' # CHR ''o'' # CHR '' '' # T) = T"
    by simp
  have "CHR '':'' \<notin> set (''to '' @ T)" using T(3) by simp
  from split_colon_first [OF this, of rest]
  have s: "split_colon (''to '' @ T @ '':'' @ rest) = [''to '' @ T, rest]" by simp
  have st: "startswith (lower (''to '' @ T @ '':'' @ rest)) ''to ''"
    unfolding lower_append lower_to by (simp add: startswith_def)
  have c: "create_in_inbox p (T @ CHR ''_'' # py_str_int (msg_id now) @ ''.json'') item w' =
             Inr (w'\<lparr>inbox := write_file (T @ CHR ''_'' # py_str_int (msg_id now) @ ''.json'') item (inbox w')\<rparr>)"
    for item w'
    using create_in_inbox_file_name [OF assms(2), of p item w'] by simp
  show ?thesis
    unfolding handle_instruction_def Let_def s
    using st assms(3,4) T(1) strip_plain [OF T(2)]
    by (simp add: r c channel_item_def)
qed

lemma glob_match_target:
  "literal_id T \<Longrightarrow> glob_match (T @ ''_'') (T @ ''_'' @ py_str_int i @ ''.json'')"
  by (simp add: glob_match_host startswith_def endswith_def)

lemma glob_match_other_target:
  assumes "CHR ''_'' \<notin> set T" "CHR ''_'' \<notin> set I" "I \<noteq> T" "literal_id I"
  shows "\<not> glob_match (I @ ''_'') (T @ ''_'' @ rest)"
proof
  assume "glob_match (I @ ''_'') (T @ ''_'' @ rest)"
  then have "prefix (I @ ''_'') (T @ ''_'' @ rest)"
    using assms(4) by (simp add: glob_match_host startswith_def)
  then obtain zs where "T @ CHR ''_'' # rest = I @ CHR ''_'' # zs" by (auto simp: prefix_def)
  from append_sep_eq [OF assms(1,2) this] assms(3) show False by simp
qed

text \<open>Claim C6, as the code has it. Let the target \<open>T\<close> be in lower case, without white
  space, colon, underscore or a character that \<^verbatim>\<open>glob\<close> interprets, and such that the file
  system accepts the name \<^verbatim>\<open>T_id.json\<close> (no NUL, at most 255 bytes). Then the bridge turns
  the text \<^verbatim>\<open>to T:rest\<close> (where the stripped rest does not itself start with
  \<^verbatim>\<open>to antigravity\<close> or \<^verbatim>\<open>to assistant\<close>) into the inbox file \<^verbatim>\<open>T_id.json\<close> holding the
  stripped rest; the priority pass of the agent whose identity is \<open>T\<close> returns the item and
  deletes the file; the priority pass of an agent with another identity, without underscore
  and without a character that \<^verbatim>\<open>glob\<close> interprets, leaves it.\<close>

theorem explicit_prefix_routing:
  assumes target: "plain_target T" "literal_id T"
    and name: "f = T @ ''_'' @ py_str_int (msg_id now) @ ''.json''" "file_name f"
    and rest: "\<not> startswith (lower (strip rest)) ''to antigravity''"
      "\<not> startswith (lower (strip rest)) ''to assistant''"
    and inbox: "distinct (names (inbox w))"
    and own: "agent_identity pt = T"
    and other: "agent_identity po \<noteq> T" "CHR ''_'' \<notin> set (agent_identity po)"
      "literal_id (agent_identity po)"
  shows "\<exists>w1. handle_instruction pb now (''to '' @ T @ '':'' @ rest) w = Inr w1
         \<and> inbox w1 = write_file f (channel_item now (strip rest)) (inbox w)
         \<and> map_of (inbox w1) f = Some (channel_item now (strip rest))
         \<and> JObj [(''text'', JStr (strip rest)), (''timestamp'', JNum now)] \<in> set (fst (priority_pass pt w1))
         \<and> f \<notin> set (names (inbox (snd (priority_pass pt w1))))
         \<and> map_of (inbox (snd (priority_pass po w1))) f = Some (channel_item now (strip rest))"
proof -
  let ?item = "channel_item now (strip rest)"
  let ?w1 = "(get_telegram_inbox_dir w)\<lparr>inbox := write_file f ?item (inbox w)\<rparr>"
  have h: "handle_instruction pb now (''to '' @ T @ '':'' @ rest) w = Inr ?w1"
    using handle_instruction_to [OF target(1) _ rest, of now pb w] name by simp
  have i1: "inbox ?w1 = AList.update f ?item (inbox w)"
    by (simp add: write_file_def)
  have d1: "distinct (names (inbox ?w1))"
    using inbox by (simp add: write_file_def names_def AList.distinct_update)
  then have dm: "distinct (map fst (inbox ?w1))" by (simp add: names_def)
  have mo: "map_of (inbox ?w1) f = Some ?item" by (simp add: write_file_def AList.update_conv')
  then have mem: "(f, ?item) \<in> set (inbox ?w1)" by (rule map_of_SomeD)
  have g: "glob_match (agent_identity pt @ ''_'') f"
    using glob_match_target [OF target(2), of "msg_id now"] own name(1) by simp
  from target(1) have "CHR ''_'' \<notin> set T" by (auto simp: plain_target_def list_all_iff)
  from glob_match_other_target [OF this other(2,1,3)]
  have ng: "\<not> glob_match (agent_identity po @ ''_'') f" by (simp add: name(1))
  have b: "body ?item = Some (JObj [(''text'', JStr (strip rest)), (''timestamp'', JNum now)])"
    by (simp add: channel_item_def)
  have "(f, ?item) \<in> set (filter (\<lambda>(n, tf). glob_match (agent_identity pt @ ''_'') n \<and> body tf \<noteq> None)
           (inbox ?w1))"
    using mem g b by simp
  then have "the (body ?item) \<in> set (map (\<lambda>(n, tf). the (body tf))
           (filter (\<lambda>(n, tf). glob_match (agent_identity pt @ ''_'') n \<and> body tf \<noteq> None) (inbox ?w1)))"
    by force
  then have r: "JObj [(''text'', JStr (strip rest)), (''timestamp'', JNum now)] \<in> set (fst (priority_pass pt ?w1))"
    by (simp add: priority_pass_result(1) [OF d1] b)
  have gone: "f \<notin> set (names (inbox (snd (priority_pass pt ?w1))))"
  proof
    assume "f \<in> set (names (inbox (snd (priority_pass pt ?w1))))"
    then obtain tf where tf: "(f, tf) \<in> set (inbox ?w1)"
      "\<not> (glob_match (agent_identity pt @ ''_'') f \<and> body tf \<noteq> None)"
      by (auto simp: names_def priority_pass_result(2) [OF d1])
    from tf(1) dm mo have "tf = ?item" by simp
    with tf(2) g b show False by simp
  qed
  have "(f, ?item) \<in> set (inbox (snd (priority_pass po ?w1)))"
    using mem ng by (simp add: priority_pass_result(2) [OF d1])
  moreover have "distinct (map fst (inbox (snd (priority_pass po ?w1))))"
    unfolding priority_pass_result(2) [OF d1] using dm by (rule distinct_map_filter)
  ultimately have stays: "map_of (inbox (snd (priority_pass po ?w1))) f = Some ?item" by simp
  have "handle_instruction pb now (''to '' @ T @ '':'' @ rest) w = Inr ?w1
         \<and> inbox ?w1 = write_file f ?item (inbox w)
         \<and> map_of (inbox ?w1) f = Some ?item
         \<and> JObj [(''text'', JStr (strip rest)), (''timestamp'', JNum now)] \<in> set (fst (priority_pass pt ?w1))
         \<and> f \<notin> set (names (inbox (snd (priority_pass pt ?w1))))
         \<and> map_of (inbox (snd (priority_pass po ?w1))) f = Some ?item"
    using h mo r gone stays by simp
  then show ?thesis by (rule exI)
qed

lemma demo_routed_name:
  "''wizardpanda'' @ ''_'' @ py_str_int (msg_id 5) @ ''.json'' = ''wizardpanda_5000.json''"
  "file_name ''wizardpanda_5000.json''"
  by (simp_all add: msg_id_def py_int_def py_str_int_def dec_nat.simps digit_def file_name_def
      utf8_length_def)

theorem explicit_prefix_routing_witness:
  "plain_target ''wizardpanda'' \<and> literal_id ''wizardpanda''
   \<and> file_name ''wizardpanda_5000.json''
   \<and> distinct (names (inbox empty_world))
   \<and> literal_id (agent_identity (proc_of ''quasar''))
   \<and> handle_instruction (proc_of ''quasar'') 5 ''to wizardpanda: status '' empty_world = Inr demo_routed
   \<and> inbox demo_routed = [(''wizardpanda_5000.json'', channel_item 5 ''status'')]
   \<and> JObj [(''text'', JStr ''status''), (''timestamp'', JNum 5)]
       \<in> set (fst (priority_pass (proc_of ''wizardpanda'') demo_routed))
   \<and> ''wizardpanda_5000.json''
       \<notin> set (names (inbox (snd (priority_pass (proc_of ''wizardpanda'') demo_routed))))
   \<and> map_of (inbox (snd (priority_pass (proc_of ''quasar'') demo_routed)))
         ''wizardpanda_5000.json'' = Some (channel_item 5 ''status'')"
proof -
  have h: "plain_target ''wizardpanda''" "literal_id ''wizardpanda''"
    "agent_identity (proc_of ''wizardpanda'') = ''wizardpanda''"
    "agent_identity (proc_of ''quasar'') \<noteq> ''wizardpanda''"
    "CHR ''_'' \<notin> set (agent_identity (proc_of ''quasar''))"
    "literal_id (agent_identity (proc_of ''quasar''))"
    by (simp_all add: plain_target_def lower_def lower_char_def is_space_def literal_id_def
        agent_identity_def proc_of_def get_hostname_def)
  have s: "strip '' status '' = ''status''"
    "\<not> startswith (lower (strip '' status '')) ''to antigravity''"
    "\<not> startswith (lower (strip '' status '')) ''to assistant''"
    by (simp_all add: strip_def lstrip_def rstrip_def is_space_def startswith_def lower_def lower_char_def)
  have d: "distinct (names (inbox empty_world))"
    by (simp add: names_def)
  from explicit_prefix_routing [of "''wizardpanda''" "''wizardpanda_5000.json''" 5 "'' status ''"
      empty_world "proc_of ''wizardpanda''" "proc_of ''quasar''" "proc_of ''quasar''",
      OF h(1,2) demo_routed_name(1) [symmetric] demo_routed_name(2) s(2,3) d h(3,4,5,6)]
  obtain w1 where w1:
    "handle_instruction (proc_of ''quasar'') 5 (''to '' @ ''wizardpanda'' @ '':'' @ '' status '') empty_world = Inr w1"
    "inbox w1 = write_file ''wizardpanda_5000.json'' (channel_item 5 (strip '' status '')) (inbox empty_world)"
    "JObj [(''text'', JStr (strip '' status '')), (''timestamp'', JNum 5)]
       \<in> set (fst (priority_pass (proc_of ''wizardpanda'') w1))"
    "''wizardpanda_5000.json'' \<notin> set (names (inbox (snd (priority_pass (proc_of ''wizardpanda'') w1))))"
    "map_of (inbox (snd (priority_pass (proc_of ''quasar'') w1))) ''wizardpanda_5000.json''
       = Some (channel_item 5 (strip '' status ''))"
    by blast
  have "handle_instruction (proc_of ''quasar'') 5 (''to '' @ ''wizardpanda'' @ '':'' @ '' status '') empty_world
          = Inr demo_routed"
    using handle_instruction_to [of "''wizardpanda''" 5 "'' status ''" "proc_of ''quasar''" empty_world]
      h(1) demo_routed_name s
    by (simp add: demo_routed_def write_file_def)
  with w1(1) have e: "w1 = demo_routed" by simp
  have "handle_instruction (proc_of ''quasar'') 5 ''to wizardpanda: status '' empty_world = Inr w1"
    using w1(1) by simp
  with w1(2-5) h demo_routed_name(2) d show ?thesis
    unfolding e by (simp add: s(1) write_file_def)
qed

text \<open>Claim C6 as stated fails: for the target \<^verbatim>\<open>WizardPanda\<close> the bridge writes
  \<^verbatim>\<open>wizardpanda_5000.json\<close>, and the poll of the agent whose identity is
  \<^verbatim>\<open>WizardPanda\<close> returns nothing and leaves the file.\<close>

theorem explicit_prefix_lowercased_counterexample:
  "handle_instruction (proc_of ''quasar'') 5 ''to WizardPanda: status'' empty_world = Inr demo_routed
   \<and> inbox demo_routed = [(''wizardpanda_5000.json'', channel_item 5 ''status'')]
   \<and> ''wizardpanda_5000.json'' \<noteq> ''WizardPanda'' @ ''_'' @ py_str_int (msg_id 5) @ ''.json''
   \<and> fst (listen_for_telegram_messages (proc_of ''WizardPanda'') 6 demo_routed) = []
   \<and> inbox (snd (listen_for_telegram_messages (proc_of ''WizardPanda'') 6 demo_routed))
     = [(''wizardpanda_5000.json'', channel_item 5 ''status'')]"
proof -
  have t: "lower ''to WizardPanda: status'' = ''to wizardpanda: status''"
    "split_colon ''to WizardPanda: status'' = [''to WizardPanda'', '' status'']"
    "replace_del ''to '' ''to WizardPanda'' = ''WizardPanda''"
    "strip ''WizardPanda'' = ''WizardPanda''" "lower ''WizardPanda'' = ''wizardpanda''"
    "strip '' status'' = ''status''" "lower ''status'' = ''status''"
    by (simp_all add: lower_def lower_char_def split_colon_def replace_del.simps(2) strip_def
        lstrip_def rstrip_def is_space_def)
  have n: "py_str_int (msg_id 5) = ''5000''"
    by (simp add: msg_id_def py_int_def py_str_int_def dec_nat.simps digit_def)
  have c: "create_in_inbox (proc_of ''quasar'') ''wizardpanda_5000.json'' item w =
             Inr (w\<lparr>inbox := write_file ''wizardpanda_5000.json'' item (inbox w)\<rparr>)" for item w
    by (rule create_in_inbox_file_name) (rule demo_routed_name(2))
  have h: "handle_instruction (proc_of ''quasar'') 5 ''to WizardPanda: status'' empty_world = Inr demo_routed"
    unfolding handle_instruction_def Let_def
    by (simp add: t n startswith_def c write_file_def channel_item_def demo_routed_def)
  have i: "inbox demo_routed = [(''wizardpanda_5000.json'', channel_item 5 ''status'')]"
    by (simp add: demo_routed_def)
  have ai: "agent_identity (proc_of ''WizardPanda'') = ''WizardPanda''"
    by (simp add: agent_identity_def proc_of_def get_hostname_def)
  have l: "listen_for_telegram_messages (proc_of ''WizardPanda'') 6 demo_routed
           = ([], get_telegram_inbox_dir demo_routed)"
    by (simp add: listen_for_telegram_messages_def priority_pass_def glob_def names_def i ai
        glob_match_literal literal_id_def startswith_def endswith_def lower_def lower_char_def)
  show ?thesis by (simp add: h i l n)
qed

subsection \<open>Agent loop: what ends it\<close>

lemma handle_telegram_instruction_raises:
  assumes "handle_telegram_instruction p x t = Inl e"
  shows "(e = KeyboardInterrupt \<and> \<not> quiet x) \<or> (e = AttributeError \<and> \<not> is_text t)"
proof (cases "lower (case identity_env p of Some i \<Rightarrow> i | None \<Rightarrow> []) = ''antigravity''")
  case True
  with assms show ?thesis
    by (auto simp: handle_telegram_instruction_def is_Exception_def quiet_def
        split: if_splits sum.splits)
next
  case False
  show ?thesis
  proof (cases t)
    case (JStr s)
    with assms False show ?thesis
      by (auto simp: handle_telegram_instruction_def is_Exception_def quiet_def
          split: if_splits sum.splits)
  qed (use assms False in \<open>simp_all add: handle_telegram_instruction_def is_text_def\<close>)
qed

lemma wf_message_payload:
  "literal_id (get_hostname p) \<Longrightarrow> ty \<noteq> ''task'' \<Longrightarrow> ty \<noteq> ''instruction'' \<Longrightarrow>
   wf_message (payload p now r ty c)"
  by (simp add: wf_message_def payload_def is_host_id_def)

lemma set_update_subset: "set (AList.update k v d) \<subseteq> insert (k, v) (set d)"
  by (induction d) auto

lemma set_delete_subset: "set (AList.delete k d) \<subseteq> set d"
  by (auto simp: AList.delete_eq)

lemma wf_mail_subset: "wf_mail d \<Longrightarrow> set d' \<subseteq> set d \<Longrightarrow> wf_mail d'"
  by (auto simp: wf_mail_def list_all_iff)

lemma wf_items_subset: "wf_items d \<Longrightarrow> set d' \<subseteq> set d \<Longrightarrow> wf_items d'"
  by (auto simp: wf_items_def list_all_iff)

lemma wf_mail_update:
  "wf_mail d \<Longrightarrow> (case c of Some m \<Rightarrow> wf_message m | None \<Rightarrow> True) \<Longrightarrow> wf_mail (AList.update k c d)"
  using set_update_subset [of k c d] by (auto simp: wf_mail_def list_all_iff)

lemma wf_items_update:
  "wf_items d \<Longrightarrow> (case body tf of Some m \<Rightarrow> wf_item m | None \<Rightarrow> True) \<Longrightarrow> wf_items (AList.update k tf d)"
  using set_update_subset [of k tf d] by (auto simp: wf_items_def list_all_iff)

lemma send_message_fields:
  "mailbox (snd (send_message p now r ty c w))
     = AList.update (fst (send_message p now r ty c w)) (Some (payload p now r ty c)) (mailbox w)"
  "inbox (snd (send_message p now r ty c w)) = inbox w"
  by (simp_all add: send_message_def Let_def trigger_nsync_def write_file_def)

lemma notify_user_telegram_fields [simp]:
  "mailbox (notify_user_telegram p now t w) = mailbox w"
  "inbox (notify_user_telegram p now t w) = inbox w"
  by (simp_all add: notify_user_telegram_def Let_def)

lemma update_fields [simp]:
  "mailbox (snd (update p now s t w)) = mailbox w"
  "inbox (snd (update p now s t w)) = inbox w"
  by (simp_all add: update_def Let_def trigger_nsync_def)

lemma handle_message_wf:
  assumes "wf_message m" "literal_id (get_hostname p)"
  shows "handle_message p x now m w = Inl (e, w') \<Longrightarrow> e = KeyboardInterrupt \<and> \<not> quiet x"
    and "handle_message p x now m w = Inr w' \<Longrightarrow> wf_mail (mailbox w) \<Longrightarrow>
           wf_mail (mailbox w') \<and> inbox w' = inbox w"
proof -
  from assms obtain sender ty where f: "subscript m ''from'' = Inr sender"
    "subscript m ''type'' = Inr ty"
    by (auto simp: wf_message_def split: sum.splits)
  show "e = KeyboardInterrupt \<and> \<not> quiet x" if h: "handle_message p x now m w = Inl (e, w')"
  proof (cases "ty = JStr ''task'' \<or> ty = JStr ''instruction''")
    case False
    with h f show ?thesis by (simp add: handle_message_def)
  next
    case True
    with assms f obtain content t where c: "subscript m ''content'' = Inr content"
      "dict_get content ''text'' (JStr []) = Inr t" "is_text t"
      by (auto simp: wf_message_def split: sum.splits)
    with h f True have "handle_telegram_instruction p x t = Inl e"
      by (auto simp: handle_message_def split: sum.splits)
    from handle_telegram_instruction_raises [OF this] c(3) show ?thesis by simp
  qed
  show "wf_mail (mailbox w') \<and> inbox w' = inbox w"
    if h: "handle_message p x now m w = Inr w'" and wf: "wf_mail (mailbox w)"
  proof (cases "ty = JStr ''task'' \<or> ty = JStr ''instruction''")
    case False
    with h f wf show ?thesis by (simp add: handle_message_def)
  next
    case True
    with assms f obtain content t where c: "subscript m ''content'' = Inr content"
      "dict_get content ''text'' (JStr []) = Inr t"
      by (auto simp: wf_message_def split: sum.splits)
    with h f True obtain result where
      w': "w' = snd (send_message p now sender ''result'' (JObj [(''text'', JStr result)]) w)"
      by (auto simp: handle_message_def split: sum.splits)
    show ?thesis
      unfolding w' send_message_fields
      using wf assms(2) by (simp add: wf_mail_update wf_message_payload)
  qed
qed

lemma handle_item_wf:
  assumes "wf_item tm"
  shows "handle_item p x now tm w = Inl (e, w') \<Longrightarrow> e = KeyboardInterrupt \<and> \<not> quiet x"
    and "handle_item p x now tm w = Inr w' \<Longrightarrow> mailbox w' = mailbox w \<and> inbox w' = inbox w"
proof -
  from assms obtain t where t: "subscript tm ''text'' = Inr t" "is_text t"
    by (auto simp: wf_item_def split: sum.splits)
  show "e = KeyboardInterrupt \<and> \<not> quiet x" if h: "handle_item p x now tm w = Inl (e, w')"
  proof -
    from h t have "handle_telegram_instruction p x t = Inl e"
      by (auto simp: handle_item_def split: sum.splits)
    from handle_telegram_instruction_raises [OF this] t(2) show ?thesis by simp
  qed
  show "mailbox w' = mailbox w \<and> inbox w' = inbox w" if h: "handle_item p x now tm w = Inr w'"
    using h t by (auto simp: handle_item_def split: sum.splits)
qed

lemma handle_all_messages_wf:
  assumes lit: "literal_id (get_hostname p)" and "list_all wf_message ms" "wf_mail (mailbox w)"
  shows "handle_all (handle_message p x) clk k ms w = Inl (e, w') \<Longrightarrow> e = KeyboardInterrupt \<and> \<not> quiet x"
    and "handle_all (handle_message p x) clk k ms w = Inr w' \<Longrightarrow> wf_mail (mailbox w') \<and> inbox w' = inbox w"
  using assms(2,3)
proof (induction ms arbitrary: k w)
  case Nil
  { case 1 then show ?case by simp }
  { case 2 then show ?case by simp }
next
  case (Cons m ms)
  { case 1
    show ?case
    proof (cases "handle_message p x (clk k) m w")
      case (Inl ew)
      with 1(1) have "handle_message p x (clk k) m w = Inl (e, w')" by simp
      from handle_message_wf(1) [OF _ lit this] 1(2) show ?thesis by simp
    next
      case (Inr w1)
      from handle_message_wf(2) [OF _ lit Inr] 1(2,3) have "wf_mail (mailbox w1)" by simp
      moreover from 1(1) Inr have "handle_all (handle_message p x) clk (Suc k) ms w1 = Inl (e, w')" by simp
      ultimately show ?thesis using Cons.IH(1) 1(2) by simp
    qed }
  { case 2
    show ?case
    proof (cases "handle_message p x (clk k) m w")
      case (Inl ew)
      with 2(1) show ?thesis by simp
    next
      case (Inr w1)
      from handle_message_wf(2) [OF _ lit Inr] 2(2,3) have w1: "wf_mail (mailbox w1)" "inbox w1 = inbox w" by simp_all
      moreover from 2(1) Inr have "handle_all (handle_message p x) clk (Suc k) ms w1 = Inr w'" by simp
      ultimately show ?thesis using Cons.IH(2) 2(2) by simp
    qed }
qed

lemma handle_all_items_wf:
  assumes "list_all wf_item ms"
  shows "handle_all (handle_item p x) clk k ms w = Inl (e, w') \<Longrightarrow> e = KeyboardInterrupt \<and> \<not> quiet x"
    and "handle_all (handle_item p x) clk k ms w = Inr w' \<Longrightarrow> mailbox w' = mailbox w \<and> inbox w' = inbox w"
  using assms
proof (induction ms arbitrary: k w)
  case Nil
  { case 1 then show ?case by simp }
  { case 2 then show ?case by simp }
next
  case (Cons m ms)
  { case 1
    show ?case
    proof (cases "handle_item p x (clk k) m w")
      case (Inl ew)
      with 1(1) have "handle_item p x (clk k) m w = Inl (e, w')" by simp
      from handle_item_wf(1) [OF _ this] 1(2) show ?thesis by simp
    next
      case (Inr w1)
      with 1(1) have "handle_all (handle_item p x) clk (Suc k) ms w1 = Inl (e, w')" by simp
      then show ?thesis using Cons.IH(1) 1(2) by simp
    qed }
  { case 2
    show ?case
    proof (cases "handle_item p x (clk k) m w")
      case (Inl ew)
      with 2(1) show ?thesis by simp
    next
      case (Inr w1)
      from handle_item_wf(2) [OF _ Inr] 2(2) have w1: "mailbox w1 = mailbox w" "inbox w1 = inbox w" by simp_all
      moreover from 2(1) Inr have "handle_all (handle_item p x) clk (Suc k) ms w1 = Inr w'" by simp
      ultimately show ?thesis using Cons.IH(2) 2(2) by simp
    qed }
qed

lemma wf_mail_member: "wf_mail d \<Longrightarrow> map_of d n = Some (Some m) \<Longrightarrow> wf_message m"
  by (auto simp: wf_mail_def list_all_iff dest!: map_of_SomeD)

lemma wf_items_member: "wf_items d \<Longrightarrow> map_of d n = Some tf \<Longrightarrow> body tf = Some m \<Longrightarrow> wf_item m"
  by (auto simp: wf_items_def list_all_iff dest!: map_of_SomeD)

lemma wf_mail_delete: "wf_mail d \<Longrightarrow> wf_mail (AList.delete n d)"
  using set_delete_subset [of n d] by (auto intro: wf_mail_subset)

lemma wf_items_delete: "wf_items d \<Longrightarrow> wf_items (AList.delete n d)"
  using set_delete_subset [of n d] by (auto intro: wf_items_subset)

lemma read_message_wf:
  assumes "wf_mail (mailbox w)" "list_all wf_message ms" "read_message n (ms, w) = (ms', w')"
  shows "wf_mail (mailbox w') \<and> list_all wf_message ms' \<and> inbox w' = inbox w"
proof (cases "parsable (mailbox w) n")
  case True
  then obtain j where j: "map_of (mailbox w) n = Some (Some j)" by (auto simp: parsable_def)
  with assms wf_mail_member [OF assms(1) j] show ?thesis
    by (auto simp: read_message_parsable [OF j] wf_mail_delete)
next
  case False
  with assms show ?thesis by (auto simp: read_message_unparsable [OF False])
qed

lemma fold_read_message_wf:
  "wf_mail (mailbox w) \<Longrightarrow> list_all wf_message ms \<Longrightarrow>
   wf_mail (mailbox (snd (fold read_message ns (ms, w))))
   \<and> list_all wf_message (fst (fold read_message ns (ms, w)))
   \<and> inbox (snd (fold read_message ns (ms, w))) = inbox w"
proof (induction ns arbitrary: ms w)
  case Nil
  then show ?case by simp
next
  case (Cons n ns)
  obtain ms' w' where s: "read_message n (ms, w) = (ms', w')" by (cases "read_message n (ms, w)")
  from read_message_wf [OF Cons.prems s] Cons.IH [of w' ms'] show ?case by (simp add: s)
qed

lemma listen_for_messages_wf:
  assumes "wf_mail (mailbox w)"
  shows "wf_mail (mailbox (snd (listen_for_messages p w)))"
    and "list_all wf_message (fst (listen_for_messages p w))"
    and "inbox (snd (listen_for_messages p w)) = inbox w"
  using fold_read_message_wf [of "get_mailbox_dir w" "[]"
      "glob (get_hostname p @ ''_'') (mailbox (get_mailbox_dir w))"] assms
  by (simp_all add: listen_for_messages_def)

lemma read_direct_wf:
  assumes "wf_items (inbox w)" "list_all wf_item ms" "read_direct n (ms, w) = (ms', w')"
  shows "wf_items (inbox w') \<and> list_all wf_item ms' \<and> mailbox w' = mailbox w"
proof (cases "tparsable (inbox w) n")
  case True
  then obtain tf j where j: "map_of (inbox w) n = Some tf" "body tf = Some j"
    by (auto simp: tparsable_def)
  with assms wf_items_member [OF assms(1) j] show ?thesis
    by (auto simp: read_direct_parsable [OF j] wf_items_delete)
next
  case False
  with assms show ?thesis by (auto simp: read_direct_unparsable [OF False])
qed

lemma fold_read_direct_wf:
  "wf_items (inbox w) \<Longrightarrow> list_all wf_item ms \<Longrightarrow>
   wf_items (inbox (snd (fold read_direct ns (ms, w))))
   \<and> list_all wf_item (fst (fold read_direct ns (ms, w)))
   \<and> mailbox (snd (fold read_direct ns (ms, w))) = mailbox w"
proof (induction ns arbitrary: ms w)
  case Nil
  then show ?case by simp
next
  case (Cons n ns)
  obtain ms' w' where s: "read_direct n (ms, w) = (ms', w')" by (cases "read_direct n (ms, w)")
  from read_direct_wf [OF Cons.prems s] Cons.IH [of w' ms'] show ?case by (simp add: s)
qed

lemma is_primary_mailbox [simp]: "mailbox (snd (is_primary p now w)) = mailbox w"
  by (simp add: is_primary_def get_remote_status_def split: sum.splits)

lemma read_fallback_wf:
  assumes "wf_items (inbox w)" "list_all wf_item ms" "read_fallback p now n (ms, w) = (ms', w')"
  shows "wf_items (inbox w') \<and> list_all wf_item ms' \<and> mailbox w' = mailbox w"
proof (cases "claimable p now w n")
  case True
  then obtain tf j where j: "map_of (inbox w) n = Some tf" "body tf = Some j"
    by (auto simp: claimable_def)
  obtain r w1 where ip: "is_primary p now w = (r, w1)" by (cases "is_primary p now w")
  then have w1: "mailbox w1 = mailbox w" using is_primary_mailbox [of p now w] by simp
  from True ip j have r: "r = Inr True" "now - mtime tf > 60" by (auto simp: claimable_def)
  have "mailbox w' = mailbox w"
    using assms(3) j r by (auto simp: read_fallback_def ip w1)
  moreover have "inbox w' = AList.delete n (inbox w)" "ms' = ms @ bodies (inbox w) [n]"
    using read_fallback_claimed(1,3) [OF True, of ms] assms(3) by simp_all
  ultimately show ?thesis
    using assms(1,2) wf_items_member [OF assms(1) j] j by (simp add: wf_items_delete)
next
  case False
  obtain r w1 where ip: "is_primary p now w = (r, w1)" by (cases "is_primary p now w")
  then have w1: "mailbox w1 = mailbox w" using is_primary_mailbox [of p now w] by simp
  have "mailbox w' = mailbox w"
    using assms(3) w1
    by (auto simp: read_fallback_def ip split: option.splits if_splits sum.splits bool.splits)
  moreover have "inbox w' = inbox w" "ms' = ms"
    using read_fallback_left(1,3) [OF False, of ms] assms(3) by simp_all
  ultimately show ?thesis using assms(1,2) by simp
qed

lemma fold_read_fallback_wf:
  "wf_items (inbox w) \<Longrightarrow> list_all wf_item ms \<Longrightarrow>
   wf_items (inbox (snd (fold (read_fallback p now) ns (ms, w))))
   \<and> list_all wf_item (fst (fold (read_fallback p now) ns (ms, w)))
   \<and> mailbox (snd (fold (read_fallback p now) ns (ms, w))) = mailbox w"
proof (induction ns arbitrary: ms w)
  case Nil
  then show ?case by simp
next
  case (Cons n ns)
  obtain ms' w' where s: "read_fallback p now n (ms, w) = (ms', w')"
    by (cases "read_fallback p now n (ms, w)")
  from read_fallback_wf [OF Cons.prems s] Cons.IH [of w' ms'] show ?case by (simp add: s)
qed

lemma listen_for_telegram_messages_wf:
  assumes "wf_items (inbox w)"
  shows "wf_items (inbox (snd (listen_for_telegram_messages p now w)))"
    and "list_all wf_item (fst (listen_for_telegram_messages p now w))"
    and "mailbox (snd (listen_for_telegram_messages p now w)) = mailbox w"
proof -
  obtain m1 w1 where pp: "priority_pass p w = (m1, w1)" by (cases "priority_pass p w")
  have 1: "wf_items (inbox w1) \<and> list_all wf_item m1 \<and> mailbox w1 = mailbox w"
    using fold_read_direct_wf [of "get_telegram_inbox_dir w" "[]"
        "glob (agent_identity p @ ''_'') (inbox (get_telegram_inbox_dir w))"] assms pp
    by (simp add: priority_pass_def)
  have "wf_items (inbox (snd (listen_for_telegram_messages p now w)))
      \<and> list_all wf_item (fst (listen_for_telegram_messages p now w))
      \<and> mailbox (snd (listen_for_telegram_messages p now w)) = mailbox w"
  proof (cases "lower (agent_identity p) = ''antigravity''")
    case True
    with 1 pp show ?thesis by (simp add: listen_for_telegram_messages_def)
  next
    case False
    with 1 pp fold_read_fallback_wf [of w1 m1 p now "glob ''Antigravity_'' (inbox w1)"]
    show ?thesis by (simp add: listen_for_telegram_messages_def)
  qed
  then show "wf_items (inbox (snd (listen_for_telegram_messages p now w)))"
    and "list_all wf_item (fst (listen_for_telegram_messages p now w))"
    and "mailbox (snd (listen_for_telegram_messages p now w)) = mailbox w"
    by simp_all
qed

lemma fold_write_wf_mail:
  "wf_mail d \<Longrightarrow> wf_mail a \<Longrightarrow> wf_mail (fold (\<lambda>(n, c). write_file n c) a d)"
proof (induction a arbitrary: d)
  case Nil
  then show ?case by simp
next
  case (Cons x a)
  obtain n c where x: "x = (n, c)" by (cases x)
  from Cons.prems(2) x have "(case c of Some m \<Rightarrow> wf_message m | None \<Rightarrow> True)" "wf_mail a"
    by (simp_all add: wf_mail_def)
  with Cons.prems(1) Cons.IH [of "AList.update n c d"] show ?case
    by (simp add: x write_file_def wf_mail_update)
qed

lemma fold_write_wf_items:
  "wf_items d \<Longrightarrow> wf_items a \<Longrightarrow> wf_items (fold (\<lambda>(n, c). write_file n c) a d)"
proof (induction a arbitrary: d)
  case Nil
  then show ?case by simp
next
  case (Cons x a)
  obtain n c where x: "x = (n, c)" by (cases x)
  from Cons.prems(2) x have "(case body c of Some m \<Rightarrow> wf_item m | None \<Rightarrow> True)" "wf_items a"
    by (simp_all add: wf_items_def)
  with Cons.prems(1) Cons.IH [of "AList.update n c d"] show ?case
    by (simp add: x write_file_def wf_items_update)
qed

lemma deliver_wf:
  "wf_tick t \<Longrightarrow> wf_mail (mailbox w) \<Longrightarrow> wf_items (inbox w) \<Longrightarrow>
   wf_mail (mailbox (deliver t w)) \<and> wf_items (inbox (deliver t w))"
  by (simp add: deliver_def wf_tick_def fold_write_wf_mail fold_write_wf_items)

lemma loop_body_wf:
  assumes "wf_mail (mailbox w)" "wf_items (inbox w)" and lit: "literal_id (get_hostname p)"
  shows "loop_body p t w = Inl (e, w') \<Longrightarrow> e = KeyboardInterrupt \<and> \<not> uninterrupted t"
    and "loop_body p t w = Inr w' \<Longrightarrow> wf_mail (mailbox w') \<and> wf_items (inbox w')"
proof -
  obtain msgs w1 where l1: "listen_for_messages p w = (msgs, w1)" by (cases "listen_for_messages p w")
  have w1: "wf_mail (mailbox w1)" "list_all wf_message msgs" "inbox w1 = inbox w"
    using listen_for_messages_wf [OF assms(1), of p] l1 by simp_all
  show "e = KeyboardInterrupt \<and> \<not> uninterrupted t" if h: "loop_body p t w = Inl (e, w')"
  proof (cases "handle_all (handle_message p (execs t)) (clock t) 1 msgs w1")
    case (Inl ew)
    with h l1 have "handle_all (handle_message p (execs t)) (clock t) 1 msgs w1 = Inl (e, w')"
      by (simp add: loop_body_def)
    from handle_all_messages_wf(1) [OF lit w1(2,1) this] show ?thesis by (simp add: uninterrupted_def)
  next
    case (Inr w2)
    from handle_all_messages_wf(2) [OF lit w1(2,1) Inr] w1(3) assms(2)
    have w2: "wf_mail (mailbox w2)" "wf_items (inbox w2)" by simp_all
    obtain t_msgs w3 where l2: "listen_for_telegram_messages p (clock t 0) w2 = (t_msgs, w3)"
      by (cases "listen_for_telegram_messages p (clock t 0) w2")
    have w3: "list_all wf_item t_msgs"
      using listen_for_telegram_messages_wf(2) [OF w2(2), of p "clock t 0"] l2 by simp
    show ?thesis
    proof (cases "handle_all (handle_item p (execs t)) (clock t) (Suc (length msgs)) t_msgs w3")
      case (Inl ew)
      with h l1 l2 Inr have "handle_all (handle_item p (execs t)) (clock t) (Suc (length msgs)) t_msgs w3 = Inl (e, w')"
        by (simp add: loop_body_def)
      from handle_all_items_wf(1) [OF w3 this] show ?thesis by (simp add: uninterrupted_def)
    next
      case w4: (Inr w4)
      with h l1 l2 Inr show ?thesis
        by (simp add: loop_body_def uninterrupted_def split: if_splits)
    qed
  qed
  show "wf_mail (mailbox w') \<and> wf_items (inbox w')" if h: "loop_body p t w = Inr w'"
  proof (cases "handle_all (handle_message p (execs t)) (clock t) 1 msgs w1")
    case (Inl ew)
    with h l1 show ?thesis by (simp add: loop_body_def)
  next
    case (Inr w2)
    from handle_all_messages_wf(2) [OF lit w1(2,1) Inr] w1(3) assms(2)
    have w2: "wf_mail (mailbox w2)" "wf_items (inbox w2)" by simp_all
    obtain t_msgs w3 where l2: "listen_for_telegram_messages p (clock t 0) w2 = (t_msgs, w3)"
      by (cases "listen_for_telegram_messages p (clock t 0) w2")
    have w3: "list_all wf_item t_msgs" "wf_items (inbox w3)" "mailbox w3 = mailbox w2"
      using listen_for_telegram_messages_wf [OF w2(2), of p "clock t 0"] l2 by simp_all
    show ?thesis
    proof (cases "handle_all (handle_item p (execs t)) (clock t) (Suc (length msgs)) t_msgs w3")
      case (Inl ew)
      with h l1 l2 Inr show ?thesis by (simp add: loop_body_def)
    next
      case w4: (Inr w4)
      from handle_all_items_wf(2) [OF w3(1) w4] w3 w2
      have "wf_mail (mailbox w4)" "wf_items (inbox w4)" by simp_all
      with h l1 l2 Inr w4 show ?thesis
        by (auto simp: loop_body_def split: if_splits)
    qed
  qed
qed

lemma iterate_wf:
  assumes lit: "literal_id (get_hostname p)"
  shows "wf_mail (mailbox w) \<Longrightarrow> wf_items (inbox w) \<Longrightarrow> list_all wf_tick ts \<Longrightarrow>
   exit_reason (iterate p ts w) \<in> {None, Some KeyboardInterrupt}
   \<and> (list_all uninterrupted ts \<longrightarrow> exit_reason (iterate p ts w) = None)"
proof (induction ts arbitrary: w)
  case Nil
  then show ?case by (simp add: exit_reason_def)
next
  case (Cons t ts)
  from Cons.prems have d: "wf_mail (mailbox (deliver t w))" "wf_items (inbox (deliver t w))"
    using deliver_wf [of t w] by simp_all
  show ?case
  proof (cases "loop_body p t (deliver t w)")
    case (Inl ew)
    obtain e w' where ew: "ew = (e, w')" by (cases ew)
    from loop_body_wf(1) [OF d lit, of t e w'] Inl ew
    have "e = KeyboardInterrupt" "\<not> uninterrupted t" by simp_all
    with Inl ew show ?thesis by (simp add: exit_reason_def)
  next
    case (Inr w')
    from loop_body_wf(2) [OF d lit Inr] Cons.prems(3) Cons.IH [of w'] Inr
    show ?thesis by simp
  qed
qed

text \<open>Claim C5, as the code has it. While every message carries the fields the loop reads
  (\<^verbatim>\<open>from\<close>, \<^verbatim>\<open>type\<close>, and for a task a \<^verbatim>\<open>content\<close> dict whose text is a string) and every
  channel item a text string, the loop is left by \<^verbatim>\<open>KeyboardInterrupt\<close> only, whatever the
  commands and the IDE automation raise inside the handler; with no interrupt it is still
  running after any number of turns.\<close>

theorem loop_exits_only_on_interrupt:
  assumes "literal_id (get_hostname p)"
    and "wf_mail (mailbox w)" "wf_items (inbox w)" "list_all wf_tick ticks"
  shows "exit_reason (autonomous_loop p now ticks w) \<in> {None, Some KeyboardInterrupt}
         \<and> (list_all uninterrupted ticks \<longrightarrow> exit_reason (autonomous_loop p now ticks w) = None)"
  unfolding autonomous_loop_def
  using assms by (intro iterate_wf) simp_all

theorem loop_exits_only_on_interrupt_witness:
  "literal_id (get_hostname (proc_of ''B''))
   \<and> wf_mail (mailbox empty_world) \<and> wf_items (inbox empty_world)
   \<and> list_all wf_tick [demo_tick [(''B_A_1.json'', Some demo_task)]]
   \<and> list_all uninterrupted [demo_tick [(''B_A_1.json'', Some demo_task)]]
   \<and> exit_reason (autonomous_loop (proc_of ''B'') 0 [demo_tick [(''B_A_1.json'', Some demo_task)]] empty_world)
       = None"
proof -
  have "wf_message demo_task"
    by (simp add: wf_message_def demo_task_def is_text_def is_host_id_def literal_id_def)
  then have h: "literal_id (get_hostname (proc_of ''B''))"
    "wf_mail (mailbox empty_world)" "wf_items (inbox empty_world)"
    "list_all wf_tick [demo_tick [(''B_A_1.json'', Some demo_task)]]"
    "list_all uninterrupted [demo_tick [(''B_A_1.json'', Some demo_task)]]"
    by (simp_all add: wf_mail_def wf_items_def wf_tick_def uninterrupted_def quiet_def demo_tick_def
        literal_id_def)
  from loop_exits_only_on_interrupt [OF h(1,2,3,4), of 0] h show ?thesis by simp
qed

lemma demo_loop_crash:
  assumes "\<And>x now w. handle_message (proc_of ''B'') x now j w = Inl (e, w)"
    and "e \<noteq> KeyboardInterrupt"
  shows "exit_reason (autonomous_loop (proc_of ''B'') 0 [demo_tick [(''B_A_1.json'', Some j)]] empty_world)
           = Some e"
proof -
  let ?w0 = "snd (update (proc_of ''B'') 0 ''active'' ''autonomous collaboration'' empty_world)"
  let ?t = "demo_tick [(''B_A_1.json'', Some j)]"
  have m: "mailbox (deliver ?t ?w0) = [(''B_A_1.json'', Some j)]"
    by (simp add: deliver_def demo_tick_def write_file_def)
  have g: "glob (get_hostname (proc_of ''B'') @ ''_'') (mailbox (deliver ?t ?w0)) = [''B_A_1.json'']"
    by (simp add: m glob_def names_def glob_match_literal literal_id_def startswith_def endswith_def)
  have l: "fst (listen_for_messages (proc_of ''B'') (deliver ?t ?w0)) = [j]"
    unfolding listen_for_messages_def Let_def mailbox_get_mailbox_dir g
    by (simp add: read_message_def m)
  obtain msgs w1 where l1: "listen_for_messages (proc_of ''B'') (deliver ?t ?w0) = (msgs, w1)"
    by (cases "listen_for_messages (proc_of ''B'') (deliver ?t ?w0)")
  with l have msgs: "msgs = [j]" by simp
  have "loop_body (proc_of ''B'') ?t (deliver ?t ?w0) = Inl (e, w1)"
    by (simp add: loop_body_def l1 msgs assms(1))
  then show ?thesis
    using assms(2) by (simp add: autonomous_loop_def exit_reason_def)
qed

text \<open>Claim C5 as stated fails. A mailbox file for B that holds the JSON object \<^verbatim>\<open>{}\<close> parses,
  \<^verbatim>\<open>m['from']\<close> raises \<^verbatim>\<open>KeyError\<close> in the loop, nothing catches it, and the loop ends. A task
  whose text is the number 5 ends it from inside the handler: \<^verbatim>\<open>text.split()\<close> stands before
  the handler's \<^verbatim>\<open>try\<close> and raises \<^verbatim>\<open>AttributeError\<close>.\<close>

theorem loop_crashes_on_malformed_message_counterexample:
  "exit_reason (autonomous_loop (proc_of ''B'') 0 [demo_tick [(''B_A_1.json'', Some (JObj []))]] empty_world)
     = Some KeyError
   \<and> exit_reason (autonomous_loop (proc_of ''B'') 0
        [demo_tick [(''B_A_1.json'',
           Some (JObj [(''from'', JStr ''A''), (''type'', JStr ''task''),
                       (''content'', JObj [(''text'', JInt 5)])]))]] empty_world)
     = Some AttributeError"
proof -
  have 1: "handle_message (proc_of ''B'') x now (JObj []) w = Inl (KeyError, w)" for x now w
    by (simp add: handle_message_def)
  have 2: "handle_message (proc_of ''B'') x now
             (JObj [(''from'', JStr ''A''), (''type'', JStr ''task''),
                    (''content'', JObj [(''text'', JInt 5)])]) w = Inl (AttributeError, w)" for x now w
    by (simp add: handle_message_def handle_telegram_instruction_def proc_of_def lower_def)
  from demo_loop_crash [of "JObj []" KeyError, OF 1]
    demo_loop_crash [of "JObj [(''from'', JStr ''A''), (''type'', JStr ''task''),
                    (''content'', JObj [(''text'', JInt 5)])]" AttributeError, OF 2]
  show ?thesis by simp
qed

end
